theory Spec2Isabelle
  imports Complex_Main "HOL-Library.Word" "HOL-Library.Log_Nat"
begin

section \<open>The Go backend (backend/main.go)\<close>

text \<open>
  The backend is one HTTP handler, \<open>analyzeImageHandler\<close>, and the function it calls,
  \<open>analyzeImageWithBedrock\<close>. Both are embedded here as pure functions. What they use of
  the Go standard library (\<open>strings\<close>, \<open>encoding/base64\<close>, \<open>encoding/json\<close>) is modelled
  beside them; the Bedrock client and the syntax layer of \<open>encoding/json\<close> (text to JSON
  value) are parameters. A Go \<open>string\<close> is a byte string, here \<^typ>\<open>string\<close>; a \<open>[]byte\<close>
  is a list of 8-bit words.
\<close>

type_synonym byte = "8 word"

subsection \<open>Package strings, for a one-byte separator\<close>

definition Contains :: "string \<Rightarrow> char \<Rightarrow> bool" where
  "Contains s sep = (sep \<in> set s)"

text \<open>\<open>strings.Split(s, sep)\<close>: all the pieces between separators, one more than there are separators.\<close>

fun Split :: "string \<Rightarrow> char \<Rightarrow> string list" where
  "Split [] sep = [[]]"
| "Split (c # cs) sep =
     (if c = sep then [] # Split cs sep
      else (case Split cs sep of
              [] \<Rightarrow> [[c]]
            | p # ps \<Rightarrow> (c # p) # ps))"

text \<open>\<open>strings.Index\<close> and \<open>strings.LastIndex\<close>: a byte offset, or \<open>-1\<close> when the byte is absent.\<close>

fun Index :: "string \<Rightarrow> char \<Rightarrow> int" where
  "Index [] c = -1"
| "Index (x # xs) c =
     (if x = c then 0
      else (let i = Index xs c in if i = -1 then -1 else i + 1))"

fun LastIndex :: "string \<Rightarrow> char \<Rightarrow> int" where
  "LastIndex [] c = -1"
| "LastIndex (x # xs) c =
     (let i = LastIndex xs c in
      if i = -1 then (if x = c then 0 else -1) else i + 1)"

text \<open>The slice expression \<open>s[lo:hi]\<close>; Go panics when the bounds are out of range.\<close>

definition slice :: "string \<Rightarrow> int \<Rightarrow> int \<Rightarrow> string option" where
  "slice s lo hi =
     (if 0 \<le> lo \<and> lo \<le> hi \<and> hi \<le> int (length s)
      then Some (take (nat (hi - lo)) (drop (nat lo) s))
      else None)"

subsection \<open>base64.StdEncoding.DecodeString\<close>

text \<open>
  The standard alphabet with \<open>=\<close> padding, not strict: \<open>\r\<close> and \<open>\n\<close> are skipped wherever
  they stand, the input is read in quanta of four characters, padding may only close the
  last quantum (\<open>xx==\<close> or \<open>xxx=\<close>) and only line ends may follow it, and the unused low bits
  of a padded quantum are not checked.
\<close>

definition decodeMap :: "char \<Rightarrow> nat option" where
  "decodeMap c =
     (let n = (of_char c :: nat) in
      if 65 \<le> n \<and> n \<le> 90 then Some (n - 65)
      else if 97 \<le> n \<and> n \<le> 122 then Some (n - 71)
      else if 48 \<le> n \<and> n \<le> 57 then Some (n + 4)
      else if n = 43 then Some 62
      else if n = 47 then Some 63
      else None)"

definition isNewline :: "char \<Rightarrow> bool" where
  "isNewline c = (c = CHR 0x0A \<or> c = CHR 0x0D)"

definition padChar :: char where
  "padChar = CHR ''=''"

text \<open>
  The end of \<open>decodeQuantum\<close>: \<open>dbuf\<close> holds the \<open>dlen\<close> six-bit values read (the others
  are zero), \<open>val\<close> is their 24-bit concatenation, and \<open>dlen - 1\<close> bytes come out.
\<close>

definition quantumBytes :: "nat list \<Rightarrow> byte list" where
  "quantumBytes dbuf =
     (let d = dbuf @ replicate (4 - length dbuf) 0;
          val = (d ! 0) * 262144 + (d ! 1) * 4096 + (d ! 2) * 64 + (d ! 3)
      in take (length dbuf - 1)
           [of_nat (val div 65536), of_nat (val div 256), of_nat val])"

text \<open>
  The loop of \<open>Decode\<close> over \<open>decodeQuantum\<close>, with the quantum read so far as the first
  argument. Every malformed input is a \<open>CorruptInputError\<close>, here \<open>None\<close>.
\<close>

fun decodeFrom :: "nat list \<Rightarrow> string \<Rightarrow> byte list option" where
  "decodeFrom dbuf [] = (if dbuf = [] then Some [] else None)"
| "decodeFrom dbuf (c # src) =
     (case decodeMap c of
        Some out \<Rightarrow>
          (if length dbuf = 3
           then (case decodeFrom [] src of
                   None \<Rightarrow> None
                 | Some bs \<Rightarrow> Some (quantumBytes (dbuf @ [out]) @ bs))
           else decodeFrom (dbuf @ [out]) src)
      | None \<Rightarrow>
          (if isNewline c then decodeFrom dbuf src
           else if c \<noteq> padChar then None
           else if length dbuf < 2 then None
           else if length dbuf = 2
           then (case dropWhile isNewline src of
                   [] \<Rightarrow> None
                 | c2 # src2 \<Rightarrow>
                     (if c2 \<noteq> padChar then None
                      else if dropWhile isNewline src2 = [] then Some (quantumBytes dbuf)
                      else None))
           else (if dropWhile isNewline src = [] then Some (quantumBytes dbuf)
                 else None)))"

definition DecodeString :: "string \<Rightarrow> byte list option" where
  "DecodeString s = decodeFrom [] s"

subsection \<open>encoding/json: storing a JSON value into the structs of main.go\<close>

text \<open>
  A JSON value as the decoder meets it. A number is still its literal: an integer literal
  (no fraction, no exponent) or any other one, since a Go \<open>int\<close> field accepts only the
  first kind. The members of an object are kept in order, duplicates included.
\<close>

datatype number_literal = IntLit int | NonIntLit

datatype json =
    JNull
  | JBool bool
  | JNumber number_literal
  | JString string
  | JArray "json list"
  | JObject "(string \<times> json) list"

datatype unmarshal_error = SyntaxError | UnmarshalTypeError

text \<open>
  Key matching: an exact match with the field's JSON name, else a match under \<open>foldName\<close>.
  \<open>foldName\<close> upper-cases ASCII letters and sends U+017F (long s, bytes C5 BF) to \<open>S\<close> and
  U+212A (Kelvin sign, bytes E2 84 AA) to \<open>K\<close>; no other rune folds to an ASCII letter, so
  the other bytes are left as they are: only equality with a folded ASCII name is used.
\<close>

definition upperASCII :: "char \<Rightarrow> char" where
  "upperASCII c =
     (let n = (of_char c :: nat) in
      if 97 \<le> n \<and> n \<le> 122 then char_of (n - 32) else c)"

fun foldName :: "string \<Rightarrow> string" where
  "foldName (a # b # c # rest) =
     (if a = CHR 0xE2 \<and> b = CHR 0x84 \<and> c = CHR 0xAA then CHR ''K'' # foldName rest
      else if a = CHR 0xC5 \<and> b = CHR 0xBF then CHR ''S'' # foldName (c # rest)
      else upperASCII a # foldName (b # c # rest))"
| "foldName [a, b] =
     (if a = CHR 0xC5 \<and> b = CHR 0xBF then [CHR ''S'']
      else upperASCII a # foldName [b])"
| "foldName [a] = [upperASCII a]"
| "foldName [] = []"

definition matchField :: "(string \<times> 'f) list \<Rightarrow> string \<Rightarrow> 'f option" where
  "matchField fields key =
     (case map_of fields key of
        Some f \<Rightarrow> Some f
      | None \<Rightarrow> map_of (map (\<lambda>(name, f). (foldName name, f)) fields) (foldName key))"

text \<open>
  Storing a literal: \<open>null\<close> leaves a string or an int as it was; a value of the wrong
  kind, a number literal that is not an integer and an integer outside 64 bits are an
  \<open>UnmarshalTypeError\<close> (\<open>int\<close> is taken 64 bits wide, as on every 64-bit platform).
\<close>

definition storeString :: "string \<Rightarrow> json \<Rightarrow> unmarshal_error + string" where
  "storeString old j =
     (case j of
        JString s \<Rightarrow> Inr s
      | JNull \<Rightarrow> Inr old
      | _ \<Rightarrow> Inl UnmarshalTypeError)"

definition storeInt :: "int \<Rightarrow> json \<Rightarrow> unmarshal_error + int" where
  "storeInt old j =
     (case j of
        JNumber (IntLit n) \<Rightarrow>
          (if - (2 ^ 63) \<le> n \<and> n < 2 ^ 63 then Inr n else Inl UnmarshalTypeError)
      | JNumber NonIntLit \<Rightarrow> Inl UnmarshalTypeError
      | JNull \<Rightarrow> Inr old
      | _ \<Rightarrow> Inl UnmarshalTypeError)"

text \<open>
  A \<open>[]string\<close> field. The decoder writes element \<open>i\<close> of the array into slot \<open>i\<close> of the
  slice's backing array and sets the length at the end, so a \<open>null\<close> element keeps what
  the slot held: the empty string in a fresh slot, a stale string where an earlier member
  of the same name had filled it. \<open>elems\<close> are the slice's elements, \<open>spare\<close> the slots of
  the backing array behind them. An empty array gives a new empty slice, \<open>null\<close> the nil
  slice.
\<close>

record string_slice =
  isNil :: bool
  elems :: "string list"
  spare :: "string list"

definition nil_slice :: string_slice where
  "nil_slice = \<lparr>isNil = True, elems = [], spare = []\<rparr>"

fun storeElems :: "string list \<Rightarrow> json list \<Rightarrow> unmarshal_error + string list" where
  "storeElems backing [] = Inr []"
| "storeElems backing (x # xs) =
     (case storeString (case backing of [] \<Rightarrow> [] | b # _ \<Rightarrow> b) x of
        Inl e \<Rightarrow> Inl e
      | Inr s \<Rightarrow>
          (case storeElems (tl backing) xs of
             Inl e \<Rightarrow> Inl e
           | Inr ss \<Rightarrow> Inr (s # ss)))"

definition storeSlice :: "string_slice \<Rightarrow> json \<Rightarrow> unmarshal_error + string_slice" where
  "storeSlice old j =
     (case j of
        JArray xs \<Rightarrow>
          (case storeElems (elems old @ spare old) xs of
             Inl e \<Rightarrow> Inl e
           | Inr ss \<Rightarrow>
               Inr (if xs = [] then \<lparr>isNil = False, elems = [], spare = []\<rparr>
                    else \<lparr>isNil = False, elems = ss,
                           spare = drop (length xs) (elems old @ spare old)\<rparr>))
      | JNull \<Rightarrow> Inr nil_slice
      | _ \<Rightarrow> Inl UnmarshalTypeError)"

subsection \<open>The request and response structs\<close>

record AnalysisRequest =
  Image :: string

record AnalysisResponse =
  Score :: int
  Composition :: string
  Lighting :: string
  Subject :: string
  Strengths :: string_slice
  Suggestions :: string_slice

definition zeroRequest :: AnalysisRequest where
  "zeroRequest = \<lparr>Image = []\<rparr>"

definition zeroResponse :: AnalysisResponse where
  "zeroResponse =
     \<lparr>Score = 0, Composition = [], Lighting = [], Subject = [],
      Strengths = nil_slice, Suggestions = nil_slice\<rparr>"

datatype response_field = FScore | FComposition | FLighting | FSubject | FStrengths | FSuggestions

definition responseFields :: "(string \<times> response_field) list" where
  "responseFields =
     [(''score'', FScore), (''composition'', FComposition), (''lighting'', FLighting),
      (''subject'', FSubject), (''strengths'', FStrengths), (''suggestions'', FSuggestions)]"

text \<open>
  One member of the object: a key that matches no field is skipped. The decoder goes on
  after a type error and reports the first one when it is done; since every such error is
  an \<open>UnmarshalTypeError\<close> and the caller drops the struct when there is an error,
  stopping at the first one gives the same result.
\<close>

definition storeResponseMember ::
  "AnalysisResponse \<Rightarrow> string \<times> json \<Rightarrow> unmarshal_error + AnalysisResponse" where
  "storeResponseMember a kv =
     (case matchField responseFields (fst kv) of
        None \<Rightarrow> Inr a
      | Some FScore \<Rightarrow>
          (case storeInt (Score a) (snd kv) of
             Inl e \<Rightarrow> Inl e | Inr n \<Rightarrow> Inr (a\<lparr>Score := n\<rparr>))
      | Some FComposition \<Rightarrow>
          (case storeString (Composition a) (snd kv) of
             Inl e \<Rightarrow> Inl e | Inr s \<Rightarrow> Inr (a\<lparr>Composition := s\<rparr>))
      | Some FLighting \<Rightarrow>
          (case storeString (Lighting a) (snd kv) of
             Inl e \<Rightarrow> Inl e | Inr s \<Rightarrow> Inr (a\<lparr>Lighting := s\<rparr>))
      | Some FSubject \<Rightarrow>
          (case storeString (Subject a) (snd kv) of
             Inl e \<Rightarrow> Inl e | Inr s \<Rightarrow> Inr (a\<lparr>Subject := s\<rparr>))
      | Some FStrengths \<Rightarrow>
          (case storeSlice (Strengths a) (snd kv) of
             Inl e \<Rightarrow> Inl e | Inr s \<Rightarrow> Inr (a\<lparr>Strengths := s\<rparr>))
      | Some FSuggestions \<Rightarrow>
          (case storeSlice (Suggestions a) (snd kv) of
             Inl e \<Rightarrow> Inl e | Inr s \<Rightarrow> Inr (a\<lparr>Suggestions := s\<rparr>)))"

fun storeResponseMembers ::
  "AnalysisResponse \<Rightarrow> (string \<times> json) list \<Rightarrow> unmarshal_error + AnalysisResponse" where
  "storeResponseMembers a [] = Inr a"
| "storeResponseMembers a (kv # kvs) =
     (case storeResponseMember a kv of
        Inl e \<Rightarrow> Inl e
      | Inr a' \<Rightarrow> storeResponseMembers a' kvs)"

text \<open>A JSON value into \<open>*AnalysisResponse\<close>: \<open>null\<close> changes nothing, only an object fits.\<close>

definition storeResponse :: "AnalysisResponse \<Rightarrow> json \<Rightarrow> unmarshal_error + AnalysisResponse" where
  "storeResponse a j =
     (case j of
        JObject kvs \<Rightarrow> storeResponseMembers a kvs
      | JNull \<Rightarrow> Inr a
      | _ \<Rightarrow> Inl UnmarshalTypeError)"

definition storeRequestMember ::
  "AnalysisRequest \<Rightarrow> string \<times> json \<Rightarrow> unmarshal_error + AnalysisRequest" where
  "storeRequestMember r kv =
     (case matchField [(''image'', ())] (fst kv) of
        None \<Rightarrow> Inr r
      | Some u \<Rightarrow>
          (case storeString (Image r) (snd kv) of
             Inl e \<Rightarrow> Inl e | Inr s \<Rightarrow> Inr (r\<lparr>Image := s\<rparr>)))"

fun storeRequestMembers ::
  "AnalysisRequest \<Rightarrow> (string \<times> json) list \<Rightarrow> unmarshal_error + AnalysisRequest" where
  "storeRequestMembers r [] = Inr r"
| "storeRequestMembers r (kv # kvs) =
     (case storeRequestMember r kv of
        Inl e \<Rightarrow> Inl e
      | Inr r' \<Rightarrow> storeRequestMembers r' kvs)"

text \<open>
  \<open>c.ShouldBindJSON(&analysisReq)\<close>. The argument is the JSON value the request body
  starts with, \<open>None\<close> when the body does not start with one. \<open>AnalysisRequest\<close> has no
  \<open>binding\<close> tag, so nothing is validated after decoding.
\<close>

definition ShouldBindJSON :: "json option \<Rightarrow> unmarshal_error + AnalysisRequest" where
  "ShouldBindJSON body =
     (case body of
        None \<Rightarrow> Inl SyntaxError
      | Some (JObject kvs) \<Rightarrow> storeRequestMembers zeroRequest kvs
      | Some JNull \<Rightarrow> Inr zeroRequest
      | Some _ \<Rightarrow> Inl UnmarshalTypeError)"

subsection \<open>analyzeImageWithBedrock\<close>

text \<open>
  What \<open>bedrockClient.Converse\<close> returns: an error, or an output whose \<open>Output\<close> member is
  nil, a message with its content blocks, or some other member.
\<close>

datatype ContentBlock = ContentBlockMemberText string | ContentBlockMemberOther

datatype ConverseOutput =
    OutputNil
  | ConverseOutputMemberMessage "ContentBlock list"
  | ConverseOutputMemberOther

datatype error =
    FailedToDecodeImageData
  | FailedToCallBedrockConverse
  | NoOutputInBedrockResponse
  | NoTextContentInBedrockResponse
  | NoValidJSONFoundInResponse
  | SliceBoundsOutOfRange
  | FailedToParseAnalysisJSON unmarshal_error

text \<open>Lines 176-183: the text of the first content block, when it is a text block.\<close>

definition responseTextOf :: "ConverseOutput \<Rightarrow> string" where
  "responseTextOf out =
     (case out of
        ConverseOutputMemberMessage (ContentBlockMemberText t # _) \<Rightarrow> t
      | _ \<Rightarrow> [])"

text \<open>Lines 189-197: the text from the first opening brace to the last closing brace.\<close>

definition extractJSON :: "string \<Rightarrow> error + string" where
  "extractJSON responseText =
     (let jsonStart = Index responseText CHR ''{'';
          jsonEnd = LastIndex responseText CHR ''}'' + 1
      in if jsonStart = -1 \<or> jsonEnd \<le> jsonStart then Inl NoValidJSONFoundInResponse
         else (case slice responseText jsonStart jsonEnd of
                 None \<Rightarrow> Inl SliceBoundsOutOfRange
               | Some jsonText \<Rightarrow> Inr jsonText))"

text \<open>
  \<open>json.Unmarshal([]byte(jsonText), &analysis)\<close> on the zero struct: the syntax layer
  (\<open>parse\<close>, \<open>None\<close> for text that is not one JSON value) and then the store.
\<close>

definition Unmarshal ::
  "(string \<Rightarrow> json option) \<Rightarrow> string \<Rightarrow> unmarshal_error + AnalysisResponse" where
  "Unmarshal parse jsonText =
     (case parse jsonText of
        None \<Rightarrow> Inl SyntaxError
      | Some j \<Rightarrow> storeResponse zeroResponse j)"

text \<open>Lines 206-211.\<close>

definition validateScore :: "AnalysisResponse \<Rightarrow> AnalysisResponse" where
  "validateScore analysis =
     (if Score analysis < 1 then analysis\<lparr>Score := 1\<rparr>
      else if Score analysis > 10 then analysis\<lparr>Score := 10\<rparr>
      else analysis)"

text \<open>Lines 199-213 on a payload that is already a JSON value.\<close>

definition analysisOfPayload :: "json \<Rightarrow> error + AnalysisResponse" where
  "analysisOfPayload j =
     (case storeResponse zeroResponse j of
        Inl e \<Rightarrow> Inl (FailedToParseAnalysisJSON e)
      | Inr analysis \<Rightarrow> Inr (validateScore analysis))"

text \<open>Lines 185-213: from the reply text to the result.\<close>

definition analysisOfReply :: "(string \<Rightarrow> json option) \<Rightarrow> string \<Rightarrow> error + AnalysisResponse" where
  "analysisOfReply parse responseText =
     (if responseText = [] then Inl NoTextContentInBedrockResponse
      else (case extractJSON responseText of
              Inl e \<Rightarrow> Inl e
            | Inr jsonText \<Rightarrow>
                (case Unmarshal parse jsonText of
                   Inl e \<Rightarrow> Inl (FailedToParseAnalysisJSON e)
                 | Inr analysis \<Rightarrow> Inr (validateScore analysis))))"

text \<open>
  The whole function. \<open>bedrock\<close> is the call of \<open>bedrockClient.Converse\<close> as a function of the image bytes
  (the prompt, the model and the inference configuration are constants); the second
  component of the result lists the image bytes of every call made.
\<close>

definition analyzeImageWithBedrock ::
  "(byte list \<Rightarrow> string + ConverseOutput) \<Rightarrow> (string \<Rightarrow> json option) \<Rightarrow> string
     \<Rightarrow> (error + AnalysisResponse) \<times> byte list list" where
  "analyzeImageWithBedrock bedrock parse imageData =
     (case DecodeString imageData of
        None \<Rightarrow> (Inl FailedToDecodeImageData, [])
      | Some imageBytes \<Rightarrow>
          (case bedrock imageBytes of
             Inl err \<Rightarrow> (Inl FailedToCallBedrockConverse, [imageBytes])
           | Inr result \<Rightarrow>
               (if result = OutputNil then (Inl NoOutputInBedrockResponse, [imageBytes])
                else (analysisOfReply parse (responseTextOf result), [imageBytes]))))"

subsection \<open>analyzeImageHandler\<close>

datatype body = ErrorBody string | AnalysisBody AnalysisResponse

record response =
  status :: nat
  payload :: body

text \<open>Lines 62-69.\<close>

definition cleanBase64 :: "string \<Rightarrow> string" where
  "cleanBase64 imageData =
     (if Contains imageData CHR '','' then
        (let parts = Split imageData CHR '','' in
         if length parts > 1 then parts ! 1 else imageData)
      else imageData)"

definition analyzeImageHandler ::
  "(byte list \<Rightarrow> string + ConverseOutput) \<Rightarrow> (string \<Rightarrow> json option) \<Rightarrow> json option
     \<Rightarrow> response \<times> byte list list" where
  "analyzeImageHandler bedrock parse reqBody =
     (case ShouldBindJSON reqBody of
        Inl err \<Rightarrow> (\<lparr>status = 400, payload = ErrorBody ''Invalid request format''\<rparr>, [])
      | Inr analysisReq \<Rightarrow>
          (if Image analysisReq = []
           then (\<lparr>status = 400, payload = ErrorBody ''Image data is required''\<rparr>, [])
           else (let imageData = cleanBase64 (Image analysisReq) in
                 case DecodeString imageData of
                   None \<Rightarrow> (\<lparr>status = 400, payload = ErrorBody ''Invalid image data''\<rparr>, [])
                 | Some _ \<Rightarrow>
                     (case analyzeImageWithBedrock bedrock parse imageData of
                        (Inl err, calls) \<Rightarrow>
                          (\<lparr>status = 500, payload = ErrorBody ''Failed to analyze image''\<rparr>, calls)
                      | (Inr analysis, calls) \<Rightarrow>
                          (\<lparr>status = 200, payload = AnalysisBody analysis\<rparr>, calls)))))"

subsection \<open>The extraction as the specification words it\<close>

text \<open>
  The index of the first opening brace and the index of the last closing brace, when
  there is one; the payload runs from the first through the last, which has to lie after
  the first.
\<close>

definition firstOpeningBrace :: "string \<Rightarrow> nat option" where
  "firstOpeningBrace text =
     (if CHR ''{'' \<in> set text
      then Some (length (takeWhile (\<lambda>x. x \<noteq> CHR ''{'') text))
      else None)"

definition lastClosingBrace :: "string \<Rightarrow> nat option" where
  "lastClosingBrace text =
     (if CHR ''}'' \<in> set text
      then Some (length text - 1 - length (takeWhile (\<lambda>x. x \<noteq> CHR ''}'') (rev text)))
      else None)"

definition spec_extract :: "string \<Rightarrow> error + string" where
  "spec_extract text =
     (case firstOpeningBrace text of
        None \<Rightarrow> Inl NoValidJSONFoundInResponse
      | Some i \<Rightarrow>
          (case lastClosingBrace text of
             None \<Rightarrow> Inl NoValidJSONFoundInResponse
           | Some j \<Rightarrow>
               (if i < j then Inr (take (j - i + 1) (drop i text))
                else Inl NoValidJSONFoundInResponse)))"

subsection \<open>The payload of an encoded image as the specification words it\<close>

text \<open>
  Everything after the first separator when the string contains one, the whole string
  otherwise.
\<close>

definition spec_payload :: "string \<Rightarrow> string" where
  "spec_payload encoded =
     (if CHR '','' \<in> set encoded
      then drop 1 (dropWhile (\<lambda>c. c \<noteq> CHR '','') encoded)
      else encoded)"

subsection \<open>Vocabulary of the statements\<close>

text \<open>The keys that the decoder stores into \<open>Score\<close>, and those it stores into \<open>Image\<close>.\<close>

definition isScoreKey :: "string \<Rightarrow> bool" where
  "isScoreKey key = (matchField responseFields key = Some FScore)"

definition isImageKey :: "string \<Rightarrow> bool" where
  "isImageKey key = (matchField [(''image'', ())] key = Some ())"

text \<open>A JSON value that is neither a number nor \<open>null\<close>.\<close>

definition nonNumeric :: "json \<Rightarrow> bool" where
  "nonNumeric j =
     (case j of
        JString _ \<Rightarrow> True
      | JBool _ \<Rightarrow> True
      | JArray _ \<Rightarrow> True
      | JObject _ \<Rightarrow> True
      | _ \<Rightarrow> False)"

subsection \<open>Stand-ins for Bedrock and for the JSON syntax layer\<close>

text \<open>
  Concrete services to run the pipeline on: a Bedrock that answers with prose around a
  payload, one that answers with the bare payload, one that fails; and the syntax layer
  restricted to the one text each of them can produce.
\<close>

definition replyWithScore42 :: "byte list \<Rightarrow> string + ConverseOutput" where
  "replyWithScore42 imageBytes =
     Inr (ConverseOutputMemberMessage
            [ContentBlockMemberText ''Here you go: {\"score\":42} Thanks!''])"

definition parseScore42 :: "string \<Rightarrow> json option" where
  "parseScore42 jsonText =
     (if jsonText = ''{\"score\":42}'' then Some (JObject [(''score'', JNumber (IntLit 42))])
      else None)"

definition replyScore9 :: "byte list \<Rightarrow> string + ConverseOutput" where
  "replyScore9 imageBytes =
     Inr (ConverseOutputMemberMessage [ContentBlockMemberText ''{\"score\":9}''])"

definition parseScore9 :: "string \<Rightarrow> json option" where
  "parseScore9 jsonText =
     (if jsonText = ''{\"score\":9}'' then Some (JObject [(''score'', JNumber (IntLit 9))])
      else None)"

definition bedrockDown :: "byte list \<Rightarrow> string + ConverseOutput" where
  "bedrockDown imageBytes = Inl ''ThrottlingException''"

definition parseNothing :: "string \<Rightarrow> json option" where
  "parseNothing jsonText = None"

section \<open>The frontend's image normalizer (the module opencv-utils)\<close>

subsection \<open>JavaScript numbers\<close>

text \<open>
  A JavaScript number is an IEEE 754 double. The finite ones are kept here as rationals,
  and an arithmetic operation gives the exact result rounded to the nearest double, ties
  to even: \<open>fl\<close> rounds to 53 significant bits. The exponent is not bounded in \<open>fl\<close>, so it
  is the rounding of doubles wherever the exact result lies in the range of the normal
  doubles, from \<open>2 powi (-1022)\<close> to \<open>2 powi 1024\<close>; every product and quotient formed
  below from integers under \<open>2 ^ 53\<close> does. A division by zero gives \<open>Infinity\<close> or \<open>NaN\<close>,
  with which the code computes on; these numbers are not modelled, and \<open>None\<close> stands
  for every run that meets one. The statements below are about runs that meet none.
\<close>

definition round_half_even :: "rat \<Rightarrow> int" where
  "round_half_even y =
     (let f = \<lfloor>y\<rfloor>; d = y - of_int f in
      if d < 1 / 2 then f
      else if 1 / 2 < d then f + 1
      else if even f then f else f + 1)"

text \<open>The exponent of the leading bit of a positive rational: \<open>\<lfloor>log\<^sub>2 x\<rfloor>\<close>.\<close>

definition binade :: "rat \<Rightarrow> int" where
  "binade x =
     (case quotient_of x of
        (p, q) \<Rightarrow>
          (let d = bitlen p - bitlen q in
           if 2 powi d \<le> x then d else d - 1))"

definition fl :: "rat \<Rightarrow> rat" where
  "fl x =
     (if x = 0 then 0
      else (let e = binade \<bar>x\<bar> - 52;
                m = round_half_even (\<bar>x\<bar> / 2 powi e)
            in sgn x * of_int m * 2 powi e))"

text \<open>\<open>x / y\<close> and \<open>x * y\<close> on numbers.\<close>

definition number_div :: "rat \<Rightarrow> rat \<Rightarrow> rat option" where
  "number_div x y = (if y = 0 then None else Some (fl (x / y)))"

definition number_mul :: "rat \<Rightarrow> rat \<Rightarrow> rat" where
  "number_mul x y = fl (x * y)"

text \<open>\<open>Math.round\<close>: the nearest integer, a tie going up.\<close>

definition Math_round :: "rat \<Rightarrow> int" where
  "Math_round x = \<lfloor>x + 1 / 2\<rfloor>"

subsection \<open>calculateTargetSize\<close>

text \<open>
  The object the function returns, and the function. \<open>w\<close> and \<open>h\<close> are the source's
  variables \<open>width\<close> and \<open>height\<close>, whose names the fields of the result have here.
\<close>

record target_size =
  width :: int
  height :: int

definition calculateTargetSize :: "rat \<Rightarrow> rat \<Rightarrow> rat \<Rightarrow> rat \<Rightarrow> target_size option" where
  "calculateTargetSize originalWidth originalHeight maxWidth maxHeight =
     (case number_div originalWidth originalHeight of
        None \<Rightarrow> None
      | Some aspectRatio \<Rightarrow>
          (if aspectRatio > 1 then
             (let w = min maxWidth originalWidth in
              case number_div w aspectRatio of
                None \<Rightarrow> None
              | Some h \<Rightarrow>
                  (if h > maxHeight
                   then Some \<lparr>width = Math_round (number_mul maxHeight aspectRatio),
                              height = Math_round maxHeight\<rparr>
                   else Some \<lparr>width = Math_round w, height = Math_round h\<rparr>))
           else
             (let h = min maxHeight originalHeight;
                  w = number_mul h aspectRatio
              in if w > maxWidth
                 then (case number_div maxWidth aspectRatio of
                         None \<Rightarrow> None
                       | Some h' \<Rightarrow>
                           Some \<lparr>width = Math_round maxWidth, height = Math_round h'\<rparr>)
                 else Some \<lparr>width = Math_round w, height = Math_round h\<rparr>)))"

subsection \<open>The processing presets\<close>

text \<open>The literals \<open>0.9\<close>, \<open>0.75\<close> and \<open>0.6\<close> are the doubles nearest to them.\<close>

datatype ProcessingMode = HIGH_QUALITY | BALANCED | COST_OPTIMIZED

record ProcessingConfig =
  maxWidth :: rat
  maxHeight :: rat
  quality :: rat

definition PROCESSING_CONFIGS :: "ProcessingMode \<Rightarrow> ProcessingConfig" where
  "PROCESSING_CONFIGS mode =
     (case mode of
        HIGH_QUALITY \<Rightarrow> \<lparr>maxWidth = 800, maxHeight = 600, quality = fl (9 / 10)\<rparr>
      | BALANCED \<Rightarrow> \<lparr>maxWidth = 512, maxHeight = 384, quality = fl (3 / 4)\<rparr>
      | COST_OPTIMIZED \<Rightarrow> \<lparr>maxWidth = 240, maxHeight = 180, quality = fl (3 / 5)\<rparr>)"

subsection \<open>Vocabulary of the proofs\<close>

text \<open>
  The unit roundoff of doubles, and rounding to the multiples of \<open>2 powi e\<close>, which is
  what \<open>fl\<close> does to a positive number within one binade.
\<close>

abbreviation (input) roundoff :: rat where
  "roundoff \<equiv> 1 / 2 ^ 53"

definition grid :: "int \<Rightarrow> rat \<Rightarrow> rat" where
  "grid e y = of_int (round_half_even (y / 2 powi e)) * 2 powi e"

section \<open>Properties of the backend\<close>

subsection \<open>Indices and slices\<close>

lemma Index_absent: "c \<notin> set s \<Longrightarrow> Index s c = -1"
  by (induction s) (auto simp: Let_def)

lemma Index_present: "c \<in> set s \<Longrightarrow> Index s c = int (length (takeWhile (\<lambda>x. x \<noteq> c) s))"
  by (induction s) (auto simp: Let_def Index_absent)

lemma LastIndex_absent: "c \<notin> set s \<Longrightarrow> LastIndex s c = -1"
  by (induction s) (auto simp: Let_def)

lemma LastIndex_lower: "-1 \<le> LastIndex s c"
  by (induction s) (auto simp: Let_def)

lemma LastIndex_eq_minus1: "(LastIndex s c = -1) = (c \<notin> set s)"
proof (induction s)
  case Nil
  then show ?case by simp
next
  case (Cons x xs)
  have "-1 \<le> LastIndex xs c" by (rule LastIndex_lower)
  with Cons show ?case by (auto simp: Let_def)
qed

lemma LastIndex_nonneg: "c \<in> set s \<Longrightarrow> 0 \<le> LastIndex s c"
  using LastIndex_lower[of s c] LastIndex_eq_minus1[of s c] by linarith

lemma LastIndex_present:
  "c \<in> set s \<Longrightarrow> LastIndex s c = int (length s) - 1 - int (length (takeWhile (\<lambda>x. x \<noteq> c) (rev s)))"
proof (induction s)
  case Nil
  then show ?case by simp
next
  case (Cons x xs)
  show ?case
  proof (cases "c \<in> set xs")
    case True
    then have "LastIndex xs c \<noteq> -1" using LastIndex_nonneg[OF True] by simp
    moreover have "takeWhile (\<lambda>x. x \<noteq> c) (rev xs @ [x]) = takeWhile (\<lambda>x. x \<noteq> c) (rev xs)"
      using True by (simp add: takeWhile_append1)
    ultimately show ?thesis using Cons.IH[OF True] by (simp add: Let_def)
  next
    case False
    then have xc: "x = c" using Cons.prems by simp
    have "takeWhile (\<lambda>x. x \<noteq> c) (rev xs @ [x]) = rev xs @ takeWhile (\<lambda>x. x \<noteq> c) [x]"
      by (rule takeWhile_append2) (use False in auto)
    then show ?thesis using False xc by (simp add: Let_def LastIndex_absent)
  qed
qed

lemma first_index_lt: "c \<in> set s \<Longrightarrow> length (takeWhile (\<lambda>x. x \<noteq> c) s) < length s"
  by (induction s) auto

lemma first_index_at: "c \<in> set s \<Longrightarrow> s ! length (takeWhile (\<lambda>x. x \<noteq> c) s) = c"
  by (induction s) auto

lemma first_index_before: "k < length (takeWhile (\<lambda>x. x \<noteq> c) s) \<Longrightarrow> s ! k \<noteq> c"
  by (induction s arbitrary: k) (auto simp: nth_Cons split: nat.splits if_splits)

lemma first_index_char:
  assumes "c \<in> set s"
  shows "length (takeWhile (\<lambda>x. x \<noteq> c) s) < length s
    \<and> s ! length (takeWhile (\<lambda>x. x \<noteq> c) s) = c
    \<and> (\<forall>k < length (takeWhile (\<lambda>x. x \<noteq> c) s). s ! k \<noteq> c)"
  using first_index_lt[OF assms] first_index_at[OF assms] first_index_before[of _ c s] by blast

lemma last_index_char:
  assumes "c \<in> set s"
  defines "j \<equiv> length s - 1 - length (takeWhile (\<lambda>x. x \<noteq> c) (rev s))"
  shows "j < length s \<and> s ! j = c \<and> (\<forall>k. j < k \<and> k < length s \<longrightarrow> s ! k \<noteq> c)"
proof -
  let ?m = "length (takeWhile (\<lambda>x. x \<noteq> c) (rev s))"
  have c: "c \<in> set (rev s)" using assms(1) by simp
  have m: "?m < length s" "rev s ! ?m = c" "\<forall>k < ?m. rev s ! k \<noteq> c"
    using first_index_char[OF c] by simp_all
  have j: "j < length s" using m(1) by (simp add: j_def)
  have "s ! j = rev s ! ?m"
    using m(1) by (simp add: rev_nth j_def)
  then have at: "s ! j = c" using m(2) by simp
  have after: "s ! k \<noteq> c" if "j < k" "k < length s" for k
  proof -
    have "length s - Suc k < ?m" using that m(1) by (simp add: j_def)
    then have "rev s ! (length s - Suc k) \<noteq> c" using m(3) by blast
    moreover have "rev s ! (length s - Suc k) = s ! k"
      using that by (simp add: rev_nth)
    ultimately show ?thesis by simp
  qed
  show ?thesis using j at after by blast
qed

lemma slice_nat:
  assumes "i \<le> j" "j < length s"
  shows "slice s (int i) (int j + 1) = Some (take (j - i + 1) (drop i s))"
proof -
  have "nat (int j + 1 - int i) = j - i + 1" using assms(1) by linarith
  moreover have "int i \<le> int j + 1" "int j + 1 \<le> int (length s)" using assms by linarith+
  ultimately show ?thesis by (simp add: slice_def)
qed

lemma extractJSON_indices:
  assumes "Index text CHR ''{'' = int i" "LastIndex text CHR ''}'' = int j"
    and "i \<noteq> j" "j < length text"
  shows "extractJSON text =
           (if i < j then Inr (take (j - i + 1) (drop i text))
            else Inl NoValidJSONFoundInResponse)"
proof (cases "i < j")
  case True
  then have "slice text (int i) (int j + 1) = Some (take (j - i + 1) (drop i text))"
    using assms(4) by (intro slice_nat) simp_all
  moreover have "\<not> int j + 1 \<le> int i" using True by linarith
  ultimately show ?thesis
    using True assms(1,2) by (simp add: extractJSON_def Let_def)
next
  case False
  then have "int j + 1 \<le> int i" using assms(3) by linarith
  then show ?thesis
    using False assms(1,2) by (simp add: extractJSON_def Let_def)
qed

lemma first_index_unique:
  assumes "i < length s" "s ! i = c" "\<forall>k < i. s ! k \<noteq> c"
  shows "c \<in> set s \<and> length (takeWhile (\<lambda>x. x \<noteq> c) s) = i"
proof -
  have mem: "c \<in> set s" using assms(1,2) nth_mem by fastforce
  let ?n = "length (takeWhile (\<lambda>x. x \<noteq> c) s)"
  have "\<not> ?n < i" using assms(3) first_index_at[OF mem] by blast
  moreover have "\<not> i < ?n" using first_index_before[of i c s] assms(2) by blast
  ultimately show ?thesis using mem by simp
qed

lemma last_index_unique:
  assumes "j < length s" "s ! j = c" "\<forall>k. j < k \<and> k < length s \<longrightarrow> s ! k \<noteq> c"
  shows "c \<in> set s \<and> length s - 1 - length (takeWhile (\<lambda>x. x \<noteq> c) (rev s)) = j"
proof -
  have mem: "c \<in> set s" using assms(1,2) nth_mem by fastforce
  let ?j = "length s - 1 - length (takeWhile (\<lambda>x. x \<noteq> c) (rev s))"
  have l: "?j < length s" "s ! ?j = c" "\<forall>k. ?j < k \<and> k < length s \<longrightarrow> s ! k \<noteq> c"
    using last_index_char[OF mem] by simp_all
  have "\<not> ?j < j" using l(3) assms(1,2) by blast
  moreover have "\<not> j < ?j" using assms(3) l(1,2) by blast
  ultimately show ?thesis using mem by simp
qed

subsection \<open>Extraction of the payload\<close>

lemma extractJSON_spec: "extractJSON text = spec_extract text"
proof (cases "CHR ''{'' \<in> set text")
  case False
  then show ?thesis
    by (simp add: extractJSON_def spec_extract_def firstOpeningBrace_def Index_absent)
next
  case op: True
  define i where "i = length (takeWhile (\<lambda>x. x \<noteq> CHR ''{'') text)"
  have start: "Index text CHR ''{'' = int i" unfolding i_def using op by (rule Index_present)
  have fo: "firstOpeningBrace text = Some i" using op by (simp add: firstOpeningBrace_def i_def)
  show ?thesis
  proof (cases "CHR ''}'' \<in> set text")
    case False
    then have "LastIndex text CHR ''}'' = -1" by (rule LastIndex_absent)
    then show ?thesis
      using False fo start
      by (simp add: extractJSON_def spec_extract_def lastClosingBrace_def)
  next
    case cl: True
    define j where "j = length text - 1 - length (takeWhile (\<lambda>x. x \<noteq> CHR ''}'') (rev text))"
    have m: "length (takeWhile (\<lambda>x. x \<noteq> CHR ''}'') (rev text)) < length text"
      using first_index_lt[of "CHR ''}''" "rev text"] cl by simp
    have last: "LastIndex text CHR ''}'' = int j"
      unfolding j_def using LastIndex_present[OF cl] m by simp
    have lc: "lastClosingBrace text = Some j" using cl by (simp add: lastClosingBrace_def j_def)
    have ati: "text ! i = CHR ''{''" unfolding i_def using op by (rule first_index_at)
    have atj: "text ! j = CHR ''}''" unfolding j_def using last_index_char[OF cl] by simp
    have neq: "i \<noteq> j" using ati atj by auto
    have jlt: "j < length text" unfolding j_def using m by simp
    show ?thesis
      using extractJSON_indices[OF start last neq jlt] fo lc
      by (simp add: spec_extract_def)
  qed
qed

lemma extractJSON_empty: "extractJSON [] = Inl NoValidJSONFoundInResponse"
  by (simp add: extractJSON_def)

lemma spec_extract_error: "spec_extract text = Inl e \<Longrightarrow> e = NoValidJSONFoundInResponse"
  by (auto simp: spec_extract_def split: option.splits if_splits)

lemma spec_extract_Inr:
  "spec_extract text = Inr p \<longleftrightarrow>
     (\<exists>i j. i < j \<and> j < length text
        \<and> text ! i = CHR ''{'' \<and> (\<forall>k < i. text ! k \<noteq> CHR ''{'')
        \<and> text ! j = CHR ''}'' \<and> (\<forall>k. j < k \<and> k < length text \<longrightarrow> text ! k \<noteq> CHR ''}'')
        \<and> p = take (j - i + 1) (drop i text))"
proof
  assume a: "spec_extract text = Inr p"
  then obtain i j where fo: "firstOpeningBrace text = Some i" and lc: "lastClosingBrace text = Some j"
    and ij: "i < j" and p: "p = take (j - i + 1) (drop i text)"
    by (auto simp: spec_extract_def split: option.splits if_splits)
  have op: "CHR ''{'' \<in> set text" and i: "i = length (takeWhile (\<lambda>x. x \<noteq> CHR ''{'') text)"
    using fo by (auto simp: firstOpeningBrace_def split: if_splits)
  have cl: "CHR ''}'' \<in> set text"
    and j: "j = length text - 1 - length (takeWhile (\<lambda>x. x \<noteq> CHR ''}'') (rev text))"
    using lc by (auto simp: lastClosingBrace_def split: if_splits)
  have "text ! i = CHR ''{'' \<and> (\<forall>k < i. text ! k \<noteq> CHR ''{'')"
    unfolding i using first_index_char[OF op] by blast
  moreover have "j < length text \<and> text ! j = CHR ''}''
      \<and> (\<forall>k. j < k \<and> k < length text \<longrightarrow> text ! k \<noteq> CHR ''}'')"
    unfolding j using last_index_char[OF cl] by blast
  ultimately show "\<exists>i j. i < j \<and> j < length text
        \<and> text ! i = CHR ''{'' \<and> (\<forall>k < i. text ! k \<noteq> CHR ''{'')
        \<and> text ! j = CHR ''}'' \<and> (\<forall>k. j < k \<and> k < length text \<longrightarrow> text ! k \<noteq> CHR ''}'')
        \<and> p = take (j - i + 1) (drop i text)"
    using ij p by blast
next
  assume "\<exists>i j. i < j \<and> j < length text
        \<and> text ! i = CHR ''{'' \<and> (\<forall>k < i. text ! k \<noteq> CHR ''{'')
        \<and> text ! j = CHR ''}'' \<and> (\<forall>k. j < k \<and> k < length text \<longrightarrow> text ! k \<noteq> CHR ''}'')
        \<and> p = take (j - i + 1) (drop i text)"
  then obtain i j where ij: "i < j" and jl: "j < length text"
    and i: "text ! i = CHR ''{''" "\<forall>k < i. text ! k \<noteq> CHR ''{''"
    and j: "text ! j = CHR ''}''" "\<forall>k. j < k \<and> k < length text \<longrightarrow> text ! k \<noteq> CHR ''}''"
    and p: "p = take (j - i + 1) (drop i text)"
    by blast
  have il: "i < length text" using ij jl by simp
  have "firstOpeningBrace text = Some i"
    using first_index_unique[OF il i] by (simp add: firstOpeningBrace_def)
  moreover have "lastClosingBrace text = Some j"
    using last_index_unique[OF jl j] by (simp add: lastClosingBrace_def)
  ultimately show "spec_extract text = Inr p"
    using ij p by (simp add: spec_extract_def)
qed

text \<open>
  Claim C5. For every reply text the extraction yields the text from the first opening
  brace through the last closing brace, both included, exactly when both braces occur and
  the last closing one lies after the first opening one; otherwise it fails with
  \<open>NoValidJSONFoundInResponse\<close> (the specification's \<open>NoPayloadFound\<close>) and with no other
  error. It agrees with the specification's wording \<open>spec_extract\<close>, and on a non-empty
  reply the function parses exactly the extracted text, or, when the extraction fails,
  returns that error whatever the parser is.
\<close>

theorem extraction_first_to_last_brace:
  "extractJSON text = spec_extract text
   \<and> (extractJSON text = Inr p \<longleftrightarrow>
        (\<exists>i j. i < j \<and> j < length text
           \<and> text ! i = CHR ''{'' \<and> (\<forall>k < i. text ! k \<noteq> CHR ''{'')
           \<and> text ! j = CHR ''}'' \<and> (\<forall>k. j < k \<and> k < length text \<longrightarrow> text ! k \<noteq> CHR ''}'')
           \<and> p = take (j - i + 1) (drop i text)))
   \<and> (extractJSON text = Inl e \<longrightarrow> e = NoValidJSONFoundInResponse)
   \<and> (text \<noteq> [] \<longrightarrow>
        analysisOfReply parse text =
          (case spec_extract text of
             Inl e \<Rightarrow> Inl NoValidJSONFoundInResponse
           | Inr jsonText \<Rightarrow>
               (case Unmarshal parse jsonText of
                  Inl e \<Rightarrow> Inl (FailedToParseAnalysisJSON e)
                | Inr analysis \<Rightarrow> Inr (validateScore analysis))))"
proof -
  have a: "extractJSON text = spec_extract text" by (rule extractJSON_spec)
  have b: "extractJSON text = Inr p \<longleftrightarrow>
        (\<exists>i j. i < j \<and> j < length text
           \<and> text ! i = CHR ''{'' \<and> (\<forall>k < i. text ! k \<noteq> CHR ''{'')
           \<and> text ! j = CHR ''}'' \<and> (\<forall>k. j < k \<and> k < length text \<longrightarrow> text ! k \<noteq> CHR ''}'')
           \<and> p = take (j - i + 1) (drop i text))"
    unfolding a by (rule spec_extract_Inr)
  have c: "extractJSON text = Inl e \<longrightarrow> e = NoValidJSONFoundInResponse"
    unfolding a using spec_extract_error by blast
  have d: "analysisOfReply parse text =
          (case spec_extract text of
             Inl e \<Rightarrow> Inl NoValidJSONFoundInResponse
           | Inr jsonText \<Rightarrow>
               (case Unmarshal parse jsonText of
                  Inl e \<Rightarrow> Inl (FailedToParseAnalysisJSON e)
                | Inr analysis \<Rightarrow> Inr (validateScore analysis)))"
    if "text \<noteq> []"
  proof (cases "spec_extract text")
    case (Inl e)
    then show ?thesis
      using that spec_extract_error[OF Inl] by (simp add: analysisOfReply_def a)
  next
    case (Inr jsonText)
    then show ?thesis using that by (simp add: analysisOfReply_def a)
  qed
  show ?thesis using a b c d by blast
qed

theorem extraction_first_to_last_brace_witness:
  "extractJSON ''Here you go: {\"score\":12} Thanks!'' = Inr ''{\"score\":12}''
   \<and> extractJSON ''A lovely photo, well done.'' = Inl NoValidJSONFoundInResponse
   \<and> extractJSON ''} before {'' = Inl NoValidJSONFoundInResponse
   \<and> ''A lovely photo, well done.'' \<noteq> []
   \<and> analysisOfReply parseScore9 ''A lovely photo, well done.'' = Inl NoValidJSONFoundInResponse"
proof -
  have s1: "spec_extract ''Here you go: {\"score\":12} Thanks!'' = Inr ''{\"score\":12}''"
    by code_simp
  have s2: "spec_extract ''A lovely photo, well done.'' = Inl NoValidJSONFoundInResponse"
    by code_simp
  have s3: "spec_extract ''} before {'' = Inl NoValidJSONFoundInResponse"
    by code_simp
  have ne: "''A lovely photo, well done.'' \<noteq> []" by simp
  have c1: "extractJSON ''Here you go: {\"score\":12} Thanks!'' = Inr ''{\"score\":12}''"
    using extraction_first_to_last_brace[of "''Here you go: {\"score\":12} Thanks!''"] s1 by simp
  have c2: "extractJSON ''A lovely photo, well done.'' = Inl NoValidJSONFoundInResponse"
    using extraction_first_to_last_brace[of "''A lovely photo, well done.''"] s2 by simp
  have c3: "extractJSON ''} before {'' = Inl NoValidJSONFoundInResponse"
    using extraction_first_to_last_brace[of "''} before {''"] s3 by simp
  have "analysisOfReply parseScore9 ''A lovely photo, well done.'' =
          (case spec_extract ''A lovely photo, well done.'' of
             Inl e \<Rightarrow> Inl NoValidJSONFoundInResponse
           | Inr jsonText \<Rightarrow>
               (case Unmarshal parseScore9 jsonText of
                  Inl e \<Rightarrow> Inl (FailedToParseAnalysisJSON e)
                | Inr analysis \<Rightarrow> Inr (validateScore analysis)))"
    using extraction_first_to_last_brace[of "''A lovely photo, well done.''" _ _ parseScore9] ne
    by blast
  then have c4: "analysisOfReply parseScore9 ''A lovely photo, well done.'' = Inl NoValidJSONFoundInResponse"
    unfolding s2 by simp
  show ?thesis using c1 c2 c3 ne c4 by blast
qed

subsection \<open>Storing the payload\<close>

lemma storeString_error: "storeString old j = Inl e \<Longrightarrow> e = UnmarshalTypeError"
  by (auto simp: storeString_def split: json.splits)

lemma storeInt_error: "storeInt old j = Inl e \<Longrightarrow> e = UnmarshalTypeError"
  by (auto simp: storeInt_def split: json.splits number_literal.splits if_splits)

lemma storeElems_error: "storeElems backing xs = Inl e \<Longrightarrow> e = UnmarshalTypeError"
  by (induction xs arbitrary: backing) (auto split: sum.splits dest: storeString_error)

lemma storeSlice_error: "storeSlice old j = Inl e \<Longrightarrow> e = UnmarshalTypeError"
  by (auto simp: storeSlice_def split: json.splits sum.splits dest: storeElems_error)

lemma storeResponseMember_error:
  "storeResponseMember a kv = Inl e \<Longrightarrow> e = UnmarshalTypeError"
  by (auto simp: storeResponseMember_def
      split: option.splits response_field.splits sum.splits
      dest: storeString_error storeInt_error storeSlice_error)

lemma storeResponseMembers_error:
  "storeResponseMembers a kvs = Inl e \<Longrightarrow> e = UnmarshalTypeError"
  by (induction kvs arbitrary: a) (auto split: sum.splits dest: storeResponseMember_error)

lemma storeResponseMember_nonNumeric_score:
  "isScoreKey (fst kv) \<Longrightarrow> nonNumeric (snd kv) \<Longrightarrow>
   storeResponseMember a kv = Inl UnmarshalTypeError"
  by (auto simp: storeResponseMember_def isScoreKey_def nonNumeric_def storeInt_def
      split: json.splits)

lemma storeResponseMembers_nonNumeric_score:
  "kv \<in> set kvs \<Longrightarrow> isScoreKey (fst kv) \<Longrightarrow> nonNumeric (snd kv) \<Longrightarrow>
   storeResponseMembers a kvs = Inl UnmarshalTypeError"
proof (induction kvs arbitrary: a)
  case Nil
  then show ?case by simp
next
  case (Cons x kvs)
  show ?case
  proof (cases "storeResponseMember a x")
    case (Inl e)
    then show ?thesis using storeResponseMember_error[OF Inl] by simp
  next
    case (Inr a')
    then have "kv \<noteq> x"
      using storeResponseMember_nonNumeric_score[OF Cons.prems(2,3), of a] by auto
    then have "kv \<in> set kvs" using Cons.prems(1) by simp
    then show ?thesis using Cons.IH[OF _ Cons.prems(2,3)] Inr by simp
  qed
qed

lemma storeResponseMember_keeps_Score:
  "storeResponseMember a kv = Inr a' \<Longrightarrow> (isScoreKey (fst kv) \<Longrightarrow> snd kv = JNull) \<Longrightarrow>
   Score a' = Score a"
  by (auto simp: storeResponseMember_def isScoreKey_def storeInt_def
      split: option.splits response_field.splits sum.splits)

lemma storeResponseMembers_keeps_Score:
  "storeResponseMembers a kvs = Inr a' \<Longrightarrow>
   (\<And>kv. kv \<in> set kvs \<Longrightarrow> isScoreKey (fst kv) \<Longrightarrow> snd kv = JNull) \<Longrightarrow>
   Score a' = Score a"
proof (induction kvs arbitrary: a)
  case Nil
  then show ?case by simp
next
  case (Cons x kvs)
  from Cons.prems(1) obtain b where b: "storeResponseMember a x = Inr b"
    and rest: "storeResponseMembers b kvs = Inr a'"
    by (auto split: sum.splits)
  have "Score b = Score a"
    using storeResponseMember_keeps_Score[OF b] Cons.prems(2) by simp
  moreover have "Score a' = Score b"
    using Cons.IH[OF rest] Cons.prems(2) by simp
  ultimately show ?case by simp
qed

lemma storeResponseMember_sets_Score:
  "isScoreKey k \<Longrightarrow> storeResponseMember a (k, JNumber (IntLit n)) = Inr a' \<Longrightarrow> Score a' = n"
  by (auto simp: storeResponseMember_def isScoreKey_def storeInt_def split: if_splits)

lemma storeResponseMembers_append:
  "storeResponseMembers a (xs @ ys) =
     (case storeResponseMembers a xs of
        Inl e \<Rightarrow> Inl e
      | Inr a' \<Rightarrow> storeResponseMembers a' ys)"
  by (induction xs arbitrary: a) (auto split: sum.splits)

lemma intent_is_no_field: "matchField responseFields ''intent'' = None"
  by code_simp

lemma storeResponseMembers_drops_unknown:
  "storeResponseMembers a (filter (\<lambda>kv. matchField responseFields (fst kv) \<noteq> None) kvs)
     = storeResponseMembers a kvs"
proof (induction kvs arbitrary: a)
  case Nil
  then show ?case by simp
next
  case (Cons x kvs)
  show ?case
  proof (cases "matchField responseFields (fst x)")
    case None
    then have "storeResponseMember a x = Inr a" by (simp add: storeResponseMember_def)
    then show ?thesis using None Cons.IH by simp
  next
    case (Some f)
    then show ?thesis using Cons.IH by (simp split: sum.splits)
  qed
qed

lemma storeElems_strings: "storeElems backing (map JString ss) = Inr ss"
  by (induction ss arbitrary: backing) (auto simp: storeString_def)

lemma validateScore_range: "1 \<le> Score (validateScore a) \<and> Score (validateScore a) \<le> 10"
  by (simp add: validateScore_def)

lemma validateScore_clamp:
  "Score (validateScore a) = (if Score a < 1 then 1 else if Score a > 10 then 10 else Score a)"
  by (simp add: validateScore_def)

lemma field_keys:
  "matchField responseFields ''score'' = Some FScore"
  "matchField responseFields ''composition'' = Some FComposition"
  "matchField responseFields ''lighting'' = Some FLighting"
  "matchField responseFields ''subject'' = Some FSubject"
  "matchField responseFields ''strengths'' = Some FStrengths"
  "matchField responseFields ''suggestions'' = Some FSuggestions"
  by code_simp+

lemma storeResponseMembers_drops_intent:
  "storeResponseMembers a (filter (\<lambda>kv. fst kv \<noteq> ''intent'') kvs) = storeResponseMembers a kvs"
proof (induction kvs arbitrary: a)
  case Nil
  then show ?case by simp
next
  case (Cons x kvs)
  show ?case
  proof (cases "fst x = ''intent''")
    case True
    then have "storeResponseMember a x = Inr a"
      by (simp add: storeResponseMember_def intent_is_no_field)
    then show ?thesis using True Cons.IH by simp
  next
    case False
    then show ?thesis using Cons.IH by (simp split: sum.splits)
  qed
qed

lemma storeResponseMembers_last_score:
  assumes "storeResponseMembers a0 (pre @ (k, JNumber (IntLit n)) # post) = Inr a"
    and "isScoreKey k" and "\<forall>kv \<in> set post. \<not> isScoreKey (fst kv)"
  shows "Score a = n"
proof -
  from assms(1) obtain a1 where a1: "storeResponseMembers a0 pre = Inr a1"
    and r1: "storeResponseMembers a1 ((k, JNumber (IntLit n)) # post) = Inr a"
    by (auto simp: storeResponseMembers_append split: sum.splits)
  from r1 obtain a2 where a2: "storeResponseMember a1 (k, JNumber (IntLit n)) = Inr a2"
    and r2: "storeResponseMembers a2 post = Inr a"
    by (auto split: sum.splits)
  have "Score a2 = n" using storeResponseMember_sets_Score[OF assms(2) a2] .
  moreover have "Score a = Score a2"
    using storeResponseMembers_keeps_Score[OF r2] assms(3) by blast
  ultimately show ?thesis by simp
qed

text \<open>
  Claim C1, as the code has it. A payload object in which some score member is a string,
  a boolean, an array or an object fails with an \<open>UnmarshalTypeError\<close> and gives no
  analysis. A payload object in which no member is a score, or every score member is
  \<open>null\<close>, is not rejected for that: the score stays 0 and is then set to 1, and the
  result is the stored record with score 1 (an error can only come from another member).
\<close>

theorem score_wrong_type_or_defaulted:
  "((\<exists>kv \<in> set kvs. isScoreKey (fst kv) \<and> nonNumeric (snd kv)) \<longrightarrow>
      analysisOfPayload (JObject kvs) = Inl (FailedToParseAnalysisJSON UnmarshalTypeError))
   \<and> ((\<forall>kv \<in> set kvs. isScoreKey (fst kv) \<longrightarrow> snd kv = JNull) \<longrightarrow>
      analysisOfPayload (JObject kvs) =
        (case storeResponseMembers zeroResponse kvs of
           Inl e \<Rightarrow> Inl (FailedToParseAnalysisJSON e)
         | Inr a \<Rightarrow> Inr (a\<lparr>Score := 1\<rparr>)))"
proof (intro conjI impI)
  assume "\<exists>kv \<in> set kvs. isScoreKey (fst kv) \<and> nonNumeric (snd kv)"
  then obtain kv where "kv \<in> set kvs" "isScoreKey (fst kv)" "nonNumeric (snd kv)" by blast
  then have "storeResponseMembers zeroResponse kvs = Inl UnmarshalTypeError"
    by (rule storeResponseMembers_nonNumeric_score)
  then show "analysisOfPayload (JObject kvs) = Inl (FailedToParseAnalysisJSON UnmarshalTypeError)"
    by (simp add: analysisOfPayload_def storeResponse_def)
next
  assume none: "\<forall>kv \<in> set kvs. isScoreKey (fst kv) \<longrightarrow> snd kv = JNull"
  show "analysisOfPayload (JObject kvs) =
        (case storeResponseMembers zeroResponse kvs of
           Inl e \<Rightarrow> Inl (FailedToParseAnalysisJSON e)
         | Inr a \<Rightarrow> Inr (a\<lparr>Score := 1\<rparr>))"
  proof (cases "storeResponseMembers zeroResponse kvs")
    case (Inl e)
    then show ?thesis by (simp add: analysisOfPayload_def storeResponse_def)
  next
    case (Inr a)
    have "Score a = Score zeroResponse"
      using storeResponseMembers_keeps_Score[OF Inr] none by blast
    then have "Score a = 0" by (simp add: zeroResponse_def)
    then have "validateScore a = a\<lparr>Score := 1\<rparr>" by (simp add: validateScore_def)
    then show ?thesis using Inr by (simp add: analysisOfPayload_def storeResponse_def)
  qed
qed

theorem score_wrong_type_or_defaulted_witness:
  "(\<exists>kv \<in> set [(''score'', JString ''seven'')]. isScoreKey (fst kv) \<and> nonNumeric (snd kv))
   \<and> analysisOfPayload (JObject [(''score'', JString ''seven'')])
       = Inl (FailedToParseAnalysisJSON UnmarshalTypeError)
   \<and> list_all (\<lambda>kv. isScoreKey (fst kv) \<longrightarrow> snd kv = JNull)
        [(''Score'', JNull), (''lighting'', JString ''Soft.'')]
   \<and> analysisOfPayload (JObject [(''Score'', JNull), (''lighting'', JString ''Soft.'')])
       = Inr (zeroResponse\<lparr>Score := 1, Lighting := ''Soft.''\<rparr>)"
proof -
  have h1: "\<exists>kv \<in> set [(''score'', JString ''seven'')]. isScoreKey (fst kv) \<and> nonNumeric (snd kv)"
    by code_simp
  have h2: "\<forall>kv \<in> set [(''Score'', JNull), (''lighting'', JString ''Soft.'')].
         isScoreKey (fst kv) \<longrightarrow> snd kv = JNull"
    by code_simp
  have s: "storeResponseMembers zeroResponse [(''Score'', JNull), (''lighting'', JString ''Soft.'')]
      = Inr (zeroResponse\<lparr>Lighting := ''Soft.''\<rparr>)"
    by code_simp
  have c1: "analysisOfPayload (JObject [(''score'', JString ''seven'')])
       = Inl (FailedToParseAnalysisJSON UnmarshalTypeError)"
    using score_wrong_type_or_defaulted[of "[(''score'', JString ''seven'')]"] h1 by blast
  have "analysisOfPayload (JObject [(''Score'', JNull), (''lighting'', JString ''Soft.'')])
       = (case storeResponseMembers zeroResponse [(''Score'', JNull), (''lighting'', JString ''Soft.'')] of
           Inl e \<Rightarrow> Inl (FailedToParseAnalysisJSON e)
         | Inr a \<Rightarrow> Inr (a\<lparr>Score := 1\<rparr>))"
    using score_wrong_type_or_defaulted[of "[(''Score'', JNull), (''lighting'', JString ''Soft.'')]"] h2
    by blast
  then have c2: "analysisOfPayload (JObject [(''Score'', JNull), (''lighting'', JString ''Soft.'')])
       = Inr (zeroResponse\<lparr>Score := 1, Lighting := ''Soft.''\<rparr>)"
    unfolding s by simp
  have h2': "list_all (\<lambda>kv. isScoreKey (fst kv) \<longrightarrow> snd kv = JNull)
        [(''Score'', JNull), (''lighting'', JString ''Soft.'')]"
    using h2 by (simp only: list_all_iff)
  show ?thesis using h1 h2' c1 c2 by blast
qed

theorem score_missing_counterexample:
  "\<not> list_ex (\<lambda>kv. isScoreKey (fst kv)) [(''composition'', JString ''Nice.'')]
   \<and> analysisOfPayload (JObject [(''composition'', JString ''Nice.'')])
       = Inr (zeroResponse\<lparr>Score := 1, Composition := ''Nice.''\<rparr>)"
  by code_simp

text \<open>
  Claim C3, as the code has it. The record built from a payload of the requested shape
  holds the score (clamped), composition, lighting, subject, strengths and suggestions of
  the payload and nothing else: \<open>AnalysisResponse\<close> has no intent field, and a payload
  gives the same result with its intent members removed.
\<close>

theorem response_fields_no_intent:
  "(- (2 ^ 63) \<le> n \<and> n < 2 ^ 63 \<longrightarrow>
      analysisOfPayload
        (JObject [(''score'', JNumber (IntLit n)), (''intent'', JString i),
                  (''composition'', JString c), (''lighting'', JString l),
                  (''subject'', JString s), (''strengths'', JArray (map JString st)),
                  (''suggestions'', JArray (map JString su))])
      = Inr \<lparr>Score = (if n < 1 then 1 else if 10 < n then 10 else n),
             Composition = c, Lighting = l, Subject = s,
             Strengths = \<lparr>isNil = False, elems = st, spare = []\<rparr>,
             Suggestions = \<lparr>isNil = False, elems = su, spare = []\<rparr>\<rparr>)
   \<and> analysisOfPayload (JObject (filter (\<lambda>kv. fst kv \<noteq> ''intent'') kvs))
       = analysisOfPayload (JObject kvs)"
proof (intro conjI impI)
  assume n: "- (2 ^ 63) \<le> n \<and> n < 2 ^ 63"
  show "analysisOfPayload
        (JObject [(''score'', JNumber (IntLit n)), (''intent'', JString i),
                  (''composition'', JString c), (''lighting'', JString l),
                  (''subject'', JString s), (''strengths'', JArray (map JString st)),
                  (''suggestions'', JArray (map JString su))])
      = Inr \<lparr>Score = (if n < 1 then 1 else if 10 < n then 10 else n),
             Composition = c, Lighting = l, Subject = s,
             Strengths = \<lparr>isNil = False, elems = st, spare = []\<rparr>,
             Suggestions = \<lparr>isNil = False, elems = su, spare = []\<rparr>\<rparr>"
    using n
    by (simp add: analysisOfPayload_def storeResponse_def storeResponseMember_def field_keys
        intent_is_no_field storeInt_def storeString_def storeSlice_def storeElems_strings
        zeroResponse_def nil_slice_def validateScore_def)
next
  show "analysisOfPayload (JObject (filter (\<lambda>kv. fst kv \<noteq> ''intent'') kvs))
       = analysisOfPayload (JObject kvs)"
    by (simp add: analysisOfPayload_def storeResponse_def storeResponseMembers_drops_intent)
qed

theorem response_fields_no_intent_witness:
  "- (2 ^ 63) \<le> (12::int) \<and> (12::int) < 2 ^ 63
   \<and> analysisOfPayload
        (JObject [(''score'', JNumber (IntLit 12)), (''intent'', JString ''A calm lake.''),
                  (''composition'', JString ''Well framed.''), (''lighting'', JString ''Soft.''),
                  (''subject'', JString ''Clear.''),
                  (''strengths'', JArray (map JString [''Good framing''])),
                  (''suggestions'', JArray (map JString [''Try closer'', ''Use daylight'']))])
      = Inr \<lparr>Score = 10, Composition = ''Well framed.'', Lighting = ''Soft.'',
             Subject = ''Clear.'',
             Strengths = \<lparr>isNil = False, elems = [''Good framing''], spare = []\<rparr>,
             Suggestions = \<lparr>isNil = False, elems = [''Try closer'', ''Use daylight''],
                            spare = []\<rparr>\<rparr>"
proof -
  have n: "- (2 ^ 63) \<le> (12::int) \<and> (12::int) < 2 ^ 63" by simp
  have "(if (12::int) < 1 then 1 else if 10 < (12::int) then 10 else 12) = (10::int)" by simp
  then show ?thesis
    using n response_fields_no_intent[of 12 "''A calm lake.''" "''Well framed.''" "''Soft.''"
        "''Clear.''" "[''Good framing'']" "[''Try closer'', ''Use daylight'']" "[]"]
    by simp
qed

theorem intent_dropped_counterexample:
  "analysisOfPayload
      (JObject [(''score'', JNumber (IntLit 7)), (''intent'', JString ''a quiet sunset'')])
     = Inr (zeroResponse\<lparr>Score := 7\<rparr>)
   \<and> analysisOfPayload
      (JObject [(''score'', JNumber (IntLit 7)), (''intent'', JString ''a busy street'')])
     = Inr (zeroResponse\<lparr>Score := 7\<rparr>)"
  by code_simp

subsection \<open>The score of a result\<close>

lemma analysisOfReply_range:
  "analysisOfReply parse text = Inr a \<Longrightarrow> 1 \<le> Score a \<and> Score a \<le> 10"
  by (auto simp: analysisOfReply_def validateScore_def split: if_splits sum.splits)

lemma analyzeImageWithBedrock_result:
  "fst (analyzeImageWithBedrock bedrock parse imageData) = Inr a \<Longrightarrow>
   \<exists>text. analysisOfReply parse text = Inr a"
  unfolding analyzeImageWithBedrock_def
  by (cases "DecodeString imageData"; simp split: sum.splits if_splits) blast+

lemma analyzeImageWithBedrock_range:
  "fst (analyzeImageWithBedrock bedrock parse imageData) = Inr a \<Longrightarrow> 1 \<le> Score a \<and> Score a \<le> 10"
  using analyzeImageWithBedrock_result analysisOfReply_range by blast

lemmas base64_eval = DecodeString_def decodeMap_def quantumBytes_def isNewline_def padChar_def

text \<open>
  Claim C4. Whenever \<open>analyzeImageWithBedrock\<close> returns an analysis, its score lies
  between 1 and 10; and when the parsed payload's last score member is the integer \<open>n\<close>,
  the score returned is 1 for \<open>n\<close> below 1, 10 for \<open>n\<close> above 10 and \<open>n\<close> itself
  otherwise.
\<close>

theorem score_clamped_to_1_10:
  "(fst (analyzeImageWithBedrock bedrock parse imageData) = Inr a \<longrightarrow>
      1 \<le> Score a \<and> Score a \<le> 10)
   \<and> (DecodeString imageData = Some imageBytes
       \<and> bedrock imageBytes = Inr (ConverseOutputMemberMessage (ContentBlockMemberText text # blocks))
       \<and> extractJSON text = Inr jsonText
       \<and> parse jsonText = Some (JObject (pre @ (k, JNumber (IntLit n)) # post))
       \<and> isScoreKey k \<and> (\<forall>kv \<in> set post. \<not> isScoreKey (fst kv))
       \<and> fst (analyzeImageWithBedrock bedrock parse imageData) = Inr a \<longrightarrow>
      Score a = (if n < 1 then 1 else if 10 < n then 10 else n))"
proof -
  have range: "1 \<le> Score a \<and> Score a \<le> 10"
    if "fst (analyzeImageWithBedrock bedrock parse imageData) = Inr a"
    using that by (rule analyzeImageWithBedrock_range)
  have clamp: "Score a = (if n < 1 then 1 else if 10 < n then 10 else n)"
    if d: "DecodeString imageData = Some imageBytes"
      and b: "bedrock imageBytes = Inr (ConverseOutputMemberMessage (ContentBlockMemberText text # blocks))"
      and e: "extractJSON text = Inr jsonText"
      and p: "parse jsonText = Some (JObject (pre @ (k, JNumber (IntLit n)) # post))"
      and k: "isScoreKey k" "\<forall>kv \<in> set post. \<not> isScoreKey (fst kv)"
      and r: "fst (analyzeImageWithBedrock bedrock parse imageData) = Inr a"
  proof -
    have ne: "text \<noteq> []" using e extractJSON_empty by auto
    have "fst (analyzeImageWithBedrock bedrock parse imageData) = analysisOfReply parse text"
      using d b by (simp add: analyzeImageWithBedrock_def responseTextOf_def)
    then have "analysisOfReply parse text = Inr a" using r by simp
    then have "(case storeResponseMembers zeroResponse (pre @ (k, JNumber (IntLit n)) # post) of
                  Inl e \<Rightarrow> Inl (FailedToParseAnalysisJSON e)
                | Inr analysis \<Rightarrow> Inr (validateScore analysis)) = Inr a"
      using ne e p by (simp add: analysisOfReply_def Unmarshal_def storeResponse_def)
    then obtain a0 where a0: "storeResponseMembers zeroResponse (pre @ (k, JNumber (IntLit n)) # post) = Inr a0"
      and a: "a = validateScore a0"
      by (cases "storeResponseMembers zeroResponse (pre @ (k, JNumber (IntLit n)) # post)") auto
    have "Score a0 = n" using storeResponseMembers_last_score[OF a0 k] .
    then show ?thesis using a by (simp add: validateScore_def)
  qed
  show ?thesis using range clamp by blast
qed

theorem score_clamped_to_1_10_witness:
  "DecodeString ''QUJD'' = Some [65, 66, 67]
   \<and> replyWithScore42 [65, 66, 67]
       = Inr (ConverseOutputMemberMessage [ContentBlockMemberText ''Here you go: {\"score\":42} Thanks!''])
   \<and> extractJSON ''Here you go: {\"score\":42} Thanks!'' = Inr ''{\"score\":42}''
   \<and> parseScore42 ''{\"score\":42}'' = Some (JObject ([] @ (''score'', JNumber (IntLit 42)) # []))
   \<and> isScoreKey ''score''
   \<and> fst (analyzeImageWithBedrock replyWithScore42 parseScore42 ''QUJD'') = Inr (zeroResponse\<lparr>Score := 10\<rparr>)
   \<and> Score (zeroResponse\<lparr>Score := 10\<rparr>) = (if (42::int) < 1 then 1 else if 10 < (42::int) then 10 else 42)
   \<and> 1 \<le> Score (zeroResponse\<lparr>Score := 10\<rparr>) \<and> Score (zeroResponse\<lparr>Score := 10\<rparr>) \<le> 10"
proof -
  have d: "DecodeString ''QUJD'' = Some [65, 66, 67]" by (simp add: base64_eval)
  have b: "replyWithScore42 [65, 66, 67]
       = Inr (ConverseOutputMemberMessage [ContentBlockMemberText ''Here you go: {\"score\":42} Thanks!''])"
    by (simp add: replyWithScore42_def)
  have e: "extractJSON ''Here you go: {\"score\":42} Thanks!'' = Inr ''{\"score\":42}''"
    by code_simp
  have p: "parseScore42 ''{\"score\":42}'' = Some (JObject ([] @ (''score'', JNumber (IntLit 42)) # []))"
    by (simp add: parseScore42_def)
  have k: "isScoreKey ''score''" by code_simp
  have st: "storeResponse zeroResponse (JObject [(''score'', JNumber (IntLit 42))])
      = Inr (zeroResponse\<lparr>Score := 42\<rparr>)"
    by code_simp
  have u: "Unmarshal parseScore42 ''{\"score\":42}'' = Inr (zeroResponse\<lparr>Score := 42\<rparr>)"
    using p st by (simp add: Unmarshal_def)
  have v: "validateScore (zeroResponse\<lparr>Score := 42\<rparr>) = zeroResponse\<lparr>Score := 10\<rparr>"
    by (simp add: validateScore_def)
  have "analysisOfReply parseScore42 ''Here you go: {\"score\":42} Thanks!''
      = Inr (zeroResponse\<lparr>Score := 10\<rparr>)"
    unfolding analysisOfReply_def e by (simp add: u v)
  then have r: "fst (analyzeImageWithBedrock replyWithScore42 parseScore42 ''QUJD'')
      = Inr (zeroResponse\<lparr>Score := 10\<rparr>)"
    unfolding analyzeImageWithBedrock_def d by (simp add: replyWithScore42_def responseTextOf_def)
  note t = score_clamped_to_1_10[of replyWithScore42 parseScore42 "''QUJD''" "zeroResponse\<lparr>Score := 10\<rparr>"
      "[65, 66, 67]" "''Here you go: {\"score\":42} Thanks!''" "[]" "''{\"score\":42}''" "[]" "''score''" 42 "[]"]
  have c1: "1 \<le> Score (zeroResponse\<lparr>Score := 10\<rparr>) \<and> Score (zeroResponse\<lparr>Score := 10\<rparr>) \<le> 10"
    using t r by blast
  have "\<forall>kv \<in> set ([] :: (string \<times> json) list). \<not> isScoreKey (fst kv)" by simp
  then have c2: "Score (zeroResponse\<lparr>Score := 10\<rparr>) = (if (42::int) < 1 then 1 else if 10 < (42::int) then 10 else 42)"
    using t d b e p k r by blast
  show ?thesis using d b e p k r c1 c2 by blast
qed

subsection \<open>The handler\<close>

text \<open>What the handler keeps of the image: the piece between the first separator and the next.\<close>

lemma Split_no_separator: "sep \<notin> set s \<Longrightarrow> Split s sep = [s]"
  by (induction s) auto

lemma Split_at_first_separator:
  "sep \<notin> set pre \<Longrightarrow> Split (pre @ sep # rest) sep = pre # Split rest sep"
  by (induction pre) auto

lemma Split_head: "\<exists>ps. Split s sep = takeWhile (\<lambda>c. c \<noteq> sep) s # ps"
  by (induction s) auto

lemma cleanBase64_no_separator: "CHR '','' \<notin> set s \<Longrightarrow> cleanBase64 s = s"
  by (simp add: cleanBase64_def Contains_def)

lemma cleanBase64_after_first_separator:
  assumes "CHR '','' \<notin> set pre"
  shows "cleanBase64 (pre @ CHR '','' # rest) = takeWhile (\<lambda>c. c \<noteq> CHR '','') rest"
proof -
  obtain ps where ps: "Split rest CHR '','' = takeWhile (\<lambda>c. c \<noteq> CHR '','') rest # ps"
    using Split_head by blast
  have "Split (pre @ CHR '','' # rest) CHR '','' = pre # takeWhile (\<lambda>c. c \<noteq> CHR '','') rest # ps"
    using Split_at_first_separator[OF assms] ps by simp
  then show ?thesis by (simp add: cleanBase64_def Contains_def)
qed

lemma cleanBase64_one_separator:
  assumes "CHR '','' \<notin> set pre" "CHR '','' \<notin> set b64"
  shows "cleanBase64 (pre @ CHR '','' # b64) = b64"
proof -
  have "takeWhile (\<lambda>c. c \<noteq> CHR '','') b64 = b64"
    using assms(2) by (intro takeWhile_eq_all_conv[THEN iffD2]) auto
  then show ?thesis using cleanBase64_after_first_separator[OF assms(1)] by simp
qed

lemma storeRequestMembers_no_image:
  "\<forall>kv \<in> set kvs. \<not> isImageKey (fst kv) \<Longrightarrow> storeRequestMembers r kvs = Inr r"
  by (induction kvs) (auto simp: storeRequestMember_def isImageKey_def split: option.splits)

lemma handler_bind_error:
  "ShouldBindJSON reqBody = Inl e \<Longrightarrow>
   analyzeImageHandler bedrock parse reqBody
     = (\<lparr>status = 400, payload = ErrorBody ''Invalid request format''\<rparr>, [])"
  by (simp add: analyzeImageHandler_def)

lemma handler_empty_image:
  "ShouldBindJSON reqBody = Inr r \<Longrightarrow> Image r = [] \<Longrightarrow>
   analyzeImageHandler bedrock parse reqBody
     = (\<lparr>status = 400, payload = ErrorBody ''Image data is required''\<rparr>, [])"
  by (simp add: analyzeImageHandler_def)

lemma handler_decode_error:
  "ShouldBindJSON reqBody = Inr r \<Longrightarrow> Image r \<noteq> [] \<Longrightarrow>
   DecodeString (cleanBase64 (Image r)) = None \<Longrightarrow>
   analyzeImageHandler bedrock parse reqBody
     = (\<lparr>status = 400, payload = ErrorBody ''Invalid image data''\<rparr>, [])"
  by (simp add: analyzeImageHandler_def)

lemma analyzeImageWithBedrock_calls:
  "DecodeString imageData = Some imageBytes \<Longrightarrow>
   snd (analyzeImageWithBedrock bedrock parse imageData) = [imageBytes]"
  by (simp add: analyzeImageWithBedrock_def split: sum.splits)

lemma handler_calls_bedrock:
  assumes "ShouldBindJSON reqBody = Inr r" "Image r \<noteq> []"
    and "DecodeString (cleanBase64 (Image r)) = Some imageBytes"
  shows "snd (analyzeImageHandler bedrock parse reqBody) = [imageBytes]
       \<and> status (fst (analyzeImageHandler bedrock parse reqBody)) \<in> {200, 500}"
proof -
  obtain res calls where a: "analyzeImageWithBedrock bedrock parse (cleanBase64 (Image r)) = (res, calls)"
    by (cases "analyzeImageWithBedrock bedrock parse (cleanBase64 (Image r))")
  have "calls = [imageBytes]"
    using analyzeImageWithBedrock_calls[OF assms(3), of bedrock parse] a by simp
  then show ?thesis
    using assms a by (cases res) (simp_all add: analyzeImageHandler_def)
qed

lemma analyzeImageHandler_score_range:
  assumes "payload (fst (analyzeImageHandler bedrock parse reqBody)) = AnalysisBody a"
  shows "1 \<le> Score a \<and> Score a \<le> 10"
proof -
  have "\<exists>imageData. fst (analyzeImageWithBedrock bedrock parse imageData) = Inr a"
    using assms
    by (auto simp: analyzeImageHandler_def Let_def
        split: sum.splits if_splits option.splits prod.splits)
      (metis fst_conv)
  then show ?thesis using analyzeImageWithBedrock_range by blast
qed

text \<open>
  What the handler's checks do give: when the request's object has no image member, or
  the bound image is empty, or the piece the handler keeps of it does not decode, the
  answer is 400 and Bedrock is not called. Where the image has at most one separator, that
  piece is the specification's payload.
\<close>

lemma handler_rejects_before_bedrock:
  assumes "(\<exists>kvs. reqBody = Some (JObject kvs) \<and> (\<forall>kv \<in> set kvs. \<not> isImageKey (fst kv)))
         \<or> (\<exists>r. ShouldBindJSON reqBody = Inr r
                \<and> (Image r = [] \<or> DecodeString (cleanBase64 (Image r)) = None))"
  shows "status (fst (analyzeImageHandler bedrock parse reqBody)) = 400
       \<and> snd (analyzeImageHandler bedrock parse reqBody) = []"
proof -
  have "\<exists>r. ShouldBindJSON reqBody = Inr r
          \<and> (Image r = [] \<or> DecodeString (cleanBase64 (Image r)) = None)"
    using assms
  proof
    assume "\<exists>kvs. reqBody = Some (JObject kvs) \<and> (\<forall>kv \<in> set kvs. \<not> isImageKey (fst kv))"
    then obtain kvs where b: "reqBody = Some (JObject kvs)"
      and n: "\<forall>kv \<in> set kvs. \<not> isImageKey (fst kv)" by blast
    have "ShouldBindJSON reqBody = Inr zeroRequest"
      using b storeRequestMembers_no_image[OF n] by (simp add: ShouldBindJSON_def)
    moreover have "Image zeroRequest = []" by (simp add: zeroRequest_def)
    ultimately show ?thesis by blast
  qed
  then obtain r where r: "ShouldBindJSON reqBody = Inr r"
    and bad: "Image r = [] \<or> DecodeString (cleanBase64 (Image r)) = None" by blast
  show ?thesis
  proof (cases "Image r = []")
    case True
    then show ?thesis using handler_empty_image[OF r True] by simp
  next
    case False
    then have "DecodeString (cleanBase64 (Image r)) = None" using bad by simp
    then show ?thesis using handler_decode_error[OF r False] by simp
  qed
qed

lemma spec_payload_no_separator: "CHR '','' \<notin> set s \<Longrightarrow> spec_payload s = s"
  by (simp add: spec_payload_def)

lemma spec_payload_after_first_separator:
  assumes "CHR '','' \<notin> set pre"
  shows "spec_payload (pre @ CHR '','' # rest) = rest"
proof -
  have "dropWhile (\<lambda>c. c \<noteq> CHR '','') (pre @ CHR '','' # rest) = CHR '','' # rest"
    using assms by (induction pre) auto
  then show ?thesis by (simp add: spec_payload_def)
qed

lemma cleanBase64_is_spec_payload:
  assumes "CHR '','' \<notin> set pre" "CHR '','' \<notin> set b64"
  shows "cleanBase64 (pre @ CHR '','' # b64) = spec_payload (pre @ CHR '','' # b64)"
  using cleanBase64_one_separator[OF assms] spec_payload_after_first_separator[OF assms(1)]
  by simp

text \<open>
  Claim C8 at the image \<open>meta,QUJD,REVG\<close>. The image is not empty and its payload, the
  text after the first separator, is \<open>QUJD,REVG\<close>, which is not well-formed base64; yet
  the handler does not answer 400: it decodes the piece \<open>QUJD\<close>, calls Bedrock with the
  bytes of \<open>ABC\<close> and answers 200 or 500, whatever Bedrock and the parser are.
\<close>

theorem malformed_payload_reaches_bedrock:
  "ShouldBindJSON (Some (JObject [(''image'', JString ''meta,QUJD,REVG'')]))
     = Inr \<lparr>Image = ''meta,QUJD,REVG''\<rparr>
   \<and> spec_payload ''meta,QUJD,REVG'' = ''QUJD,REVG''
   \<and> DecodeString (spec_payload ''meta,QUJD,REVG'') = None
   \<and> status (fst (analyzeImageHandler bedrock parse
                    (Some (JObject [(''image'', JString ''meta,QUJD,REVG'')])))) \<in> {200, 500}
   \<and> status (fst (analyzeImageHandler bedrock parse
                    (Some (JObject [(''image'', JString ''meta,QUJD,REVG'')])))) \<noteq> 400
   \<and> snd (analyzeImageHandler bedrock parse
             (Some (JObject [(''image'', JString ''meta,QUJD,REVG'')]))) = [[65, 66, 67]]"
proof -
  have b: "ShouldBindJSON (Some (JObject [(''image'', JString ''meta,QUJD,REVG'')]))
      = Inr \<lparr>Image = ''meta,QUJD,REVG''\<rparr>"
    by code_simp
  have p: "spec_payload ''meta,QUJD,REVG'' = ''QUJD,REVG''" by code_simp
  have d: "DecodeString ''QUJD,REVG'' = None" by (simp add: base64_eval)
  have c: "cleanBase64 ''meta,QUJD,REVG'' = ''QUJD''" by code_simp
  have k: "DecodeString ''QUJD'' = Some [65, 66, 67]" by (simp add: base64_eval)
  have "DecodeString (cleanBase64 (Image \<lparr>Image = ''meta,QUJD,REVG''\<rparr>)) = Some [65, 66, 67]"
    by (simp add: c k)
  from handler_calls_bedrock[OF b _ this, of bedrock parse]
  have h: "snd (analyzeImageHandler bedrock parse
               (Some (JObject [(''image'', JString ''meta,QUJD,REVG'')]))) = [[65, 66, 67]]"
    and st: "status (fst (analyzeImageHandler bedrock parse
                    (Some (JObject [(''image'', JString ''meta,QUJD,REVG'')])))) \<in> {200, 500}"
    by simp_all
  have ne: "status (fst (analyzeImageHandler bedrock parse
                    (Some (JObject [(''image'', JString ''meta,QUJD,REVG'')])))) \<noteq> 400"
    using st by auto
  show ?thesis using b p d h st ne by simp
qed

text \<open>
  Claim C9. The image \<open>meta,\<close> is not empty, the payload the handler keeps of it is the
  empty string, the empty string decodes to no bytes, and so the handler calls Bedrock,
  once and with zero image bytes, and answers 200 or 500, not 400.
\<close>

theorem trailing_separator_sends_no_bytes:
  "ShouldBindJSON (Some (JObject [(''image'', JString ''meta,'')])) = Inr \<lparr>Image = ''meta,''\<rparr>
   \<and> cleanBase64 ''meta,'' = []
   \<and> DecodeString [] = Some []
   \<and> snd (analyzeImageHandler bedrock parse (Some (JObject [(''image'', JString ''meta,'')]))) = [[]]
   \<and> status (fst (analyzeImageHandler bedrock parse (Some (JObject [(''image'', JString ''meta,'')]))))
       \<in> {200, 500}"
proof -
  have b: "ShouldBindJSON (Some (JObject [(''image'', JString ''meta,'')])) = Inr \<lparr>Image = ''meta,''\<rparr>"
    by code_simp
  have c: "cleanBase64 ''meta,'' = []" by code_simp
  have d: "DecodeString [] = Some []" by (simp add: DecodeString_def)
  have "DecodeString (cleanBase64 (Image \<lparr>Image = ''meta,''\<rparr>)) = Some []"
    by (simp add: c d)
  from handler_calls_bedrock[OF b _ this, of bedrock parse] b c d show ?thesis by simp
qed

theorem trailing_separator_sends_no_bytes_witness:
  "snd (analyzeImageHandler replyScore9 parseScore9 (Some (JObject [(''image'', JString ''meta,'')]))) = [[]]
   \<and> snd (analyzeImageHandler bedrockDown parseNothing (Some (JObject [(''image'', JString ''meta,'')]))) = [[]]"
  using trailing_separator_sends_no_bytes[of replyScore9 parseScore9]
    trailing_separator_sends_no_bytes[of bedrockDown parseNothing]
  by blast

text \<open>
  Claim C2 at the image \<open>meta,QUJD,REVG\<close>. Everything after the first separator is
  \<open>QUJD,REVG\<close>, which is not base64; the handler keeps only \<open>QUJD\<close>, the piece between
  the first and the second separator, decodes it to the bytes of \<open>ABC\<close> and sends them
  to Bedrock. On the bare \<open>QUJD,REVG\<close> it keeps \<open>REVG\<close> instead.
\<close>

theorem second_separator_cuts_payload:
  "cleanBase64 ''meta,QUJD,REVG'' = ''QUJD''
   \<and> DecodeString ''QUJD'' = Some [65, 66, 67]
   \<and> DecodeString ''QUJD,REVG'' = None
   \<and> cleanBase64 ''QUJD,REVG'' = ''REVG''
   \<and> DecodeString ''REVG'' = Some [68, 69, 70]
   \<and> snd (analyzeImageHandler bedrock parse (Some (JObject [(''image'', JString ''meta,QUJD,REVG'')])))
       = [[65, 66, 67]]"
proof -
  have c1: "cleanBase64 ''meta,QUJD,REVG'' = ''QUJD''" by code_simp
  have c2: "cleanBase64 ''QUJD,REVG'' = ''REVG''" by code_simp
  have d1: "DecodeString ''QUJD'' = Some [65, 66, 67]" by (simp add: base64_eval)
  have d2: "DecodeString ''QUJD,REVG'' = None" by (simp add: base64_eval)
  have d3: "DecodeString ''REVG'' = Some [68, 69, 70]" by (simp add: base64_eval)
  have b: "ShouldBindJSON (Some (JObject [(''image'', JString ''meta,QUJD,REVG'')]))
      = Inr \<lparr>Image = ''meta,QUJD,REVG''\<rparr>"
    by code_simp
  have "DecodeString (cleanBase64 (Image \<lparr>Image = ''meta,QUJD,REVG''\<rparr>)) = Some [65, 66, 67]"
    by (simp add: c1 d1)
  from handler_calls_bedrock[OF b _ this, of bedrock parse] c1 c2 d1 d2 d3 show ?thesis by simp
qed

section \<open>Properties of the normalizer\<close>

subsection \<open>Rounding to the nearest double\<close>

lemma rhe_floor_le: "\<lfloor>y\<rfloor> \<le> round_half_even y"
  by (simp add: round_half_even_def Let_def)

lemma rhe_le_floor1: "round_half_even y \<le> \<lfloor>y\<rfloor> + 1"
  by (simp add: round_half_even_def Let_def)

lemma rhe_err: "\<bar>of_int (round_half_even y) - y\<bar> \<le> 1 / 2"
proof -
  have "of_int \<lfloor>y\<rfloor> \<le> y" "y < of_int \<lfloor>y\<rfloor> + 1" by linarith+
  then show ?thesis
    by (auto simp: round_half_even_def Let_def abs_le_iff)
qed

lemma rhe_of_int: "round_half_even (of_int n) = n"
  by (simp add: round_half_even_def)

lemma rhe_mono: "y \<le> z \<Longrightarrow> round_half_even y \<le> round_half_even z"
proof -
  assume yz: "y \<le> z"
  then have fl: "\<lfloor>y\<rfloor> \<le> \<lfloor>z\<rfloor>" by (rule floor_mono)
  show ?thesis
  proof (cases "\<lfloor>y\<rfloor> = \<lfloor>z\<rfloor>")
    case True
    then show ?thesis using yz
      by (auto simp: round_half_even_def Let_def)
  next
    case False
    then have "\<lfloor>y\<rfloor> + 1 \<le> \<lfloor>z\<rfloor>" using fl by simp
    then show ?thesis using rhe_le_floor1[of y] rhe_floor_le[of z] by linarith
  qed
qed

lemma binade_bounds:
  assumes "0 < x"
  shows "2 powi (binade x) \<le> x \<and> x < 2 powi (binade x + 1)"
proof -
  obtain p q where pq: "quotient_of x = (p, q)" by (cases "quotient_of x")
  have q: "0 < q" using quotient_of_denom_pos[OF pq] .
  have x: "x = of_int p / of_int q" using quotient_of_div[OF pq] .
  have p: "0 < p" using assms q x by (simp add: zero_less_divide_iff)
  define bp where "bp = bitlen p"
  define bq where "bq = bitlen q"
  have "bitlen p \<noteq> 0" using p by (simp add: bitlen_eq_zero_iff)
  then have bp1: "1 \<le> bp" using bitlen_nonneg[of p] unfolding bp_def by arith
  have "bitlen q \<noteq> 0" using q by (simp add: bitlen_eq_zero_iff)
  then have bq1: "1 \<le> bq" using bitlen_nonneg[of q] unfolding bq_def by arith
  have pl: "(2::rat) powi (bp - 1) \<le> of_int p"
  proof -
    have "(2::int) ^ nat (bp - 1) \<le> p" using bitlen_bounds[OF p] by (simp add: bp_def)
    then have "of_int ((2::int) ^ nat (bp - 1)) \<le> (of_int p :: rat)" by (simp only: of_int_le_iff)
    then show ?thesis using bp1 by (simp add: power_int_nonneg_exp)
  qed
  have pu: "(of_int p :: rat) < 2 powi bp"
  proof -
    have "p < (2::int) ^ nat bp" using bitlen_bounds[OF p] by (simp add: bp_def)
    then have "(of_int p :: rat) < of_int ((2::int) ^ nat bp)" by (simp only: of_int_less_iff)
    then show ?thesis using bp1 by (simp add: power_int_nonneg_exp)
  qed
  have ql: "(2::rat) powi (bq - 1) \<le> of_int q"
  proof -
    have "(2::int) ^ nat (bq - 1) \<le> q" using bitlen_bounds[OF q] by (simp add: bq_def)
    then have "of_int ((2::int) ^ nat (bq - 1)) \<le> (of_int q :: rat)" by (simp only: of_int_le_iff)
    then show ?thesis using bq1 by (simp add: power_int_nonneg_exp)
  qed
  have qu: "(of_int q :: rat) < 2 powi bq"
  proof -
    have "q < (2::int) ^ nat bq" using bitlen_bounds[OF q] by (simp add: bq_def)
    then have "(of_int q :: rat) < of_int ((2::int) ^ nat bq)" by (simp only: of_int_less_iff)
    then show ?thesis using bq1 by (simp add: power_int_nonneg_exp)
  qed
  have qpos: "(0::rat) < of_int q" using q by simp
  define d where "d = bp - bq"
  have lower: "(2::rat) powi (d - 1) < x"
  proof -
    have "(2::rat) powi (d - 1) = 2 powi (bp - 1) / 2 powi bq"
      by (simp add: d_def power_int_diff)
    also have "\<dots> \<le> of_int p / 2 powi bq"
      using pl by (simp add: divide_right_mono)
    also have "\<dots> < of_int p / of_int q"
      using qu qpos p by (simp add: divide_strict_left_mono)
    finally show ?thesis using x by simp
  qed
  have upper: "x < (2::rat) powi (d + 1)"
  proof -
    have "x = of_int p / of_int q" by (rule x)
    also have "\<dots> < 2 powi bp / of_int q"
      using pu qpos by (simp add: divide_strict_right_mono)
    also have "\<dots> \<le> 2 powi bp / 2 powi (bq - 1)"
      using ql q by (intro divide_left_mono) simp_all
    also have "\<dots> = 2 powi (bp - (bq - 1))"
      by (rule power_int_diff[symmetric]) simp
    also have "bp - (bq - 1) = d + 1"
      by (simp add: d_def)
    finally show ?thesis .
  qed
  have b: "binade x = (if 2 powi d \<le> x then d else d - 1)"
    by (simp add: binade_def pq d_def bp_def bq_def Let_def)
  show ?thesis
  proof (cases "2 powi d \<le> x")
    case True
    then show ?thesis using b upper by simp
  next
    case False
    then have "x < 2 powi d" by simp
    then show ?thesis using b False lower by simp
  qed
qed

lemma pow2_less_cancel: "(2::rat) powi m < 2 powi n \<Longrightarrow> m < n"
proof (rule ccontr)
  assume a: "(2::rat) powi m < 2 powi n" and "\<not> m < n"
  then have "n \<le> m" by simp
  then have "(2::rat) powi n \<le> 2 powi m" by (intro power_int_increasing) simp_all
  then show False using a by simp
qed

lemma binade_unique:
  assumes "0 < x" "2 powi k \<le> x" "x < 2 powi (k + 1)"
  shows "binade x = k"
proof -
  have b: "2 powi (binade x) \<le> x" "x < 2 powi (binade x + 1)"
    using binade_bounds[OF assms(1)] by simp_all
  have "(2::rat) powi k < 2 powi (binade x + 1)" using assms(2) b(2) by simp
  then have "k < binade x + 1" by (rule pow2_less_cancel)
  moreover have "(2::rat) powi (binade x) < 2 powi (k + 1)" using assms(3) b(1) by simp
  then have "binade x < k + 1" by (rule pow2_less_cancel)
  ultimately show ?thesis by simp
qed

lemma binade_mono:
  assumes "0 < x" "x \<le> y"
  shows "binade x \<le> binade y"
proof -
  have "0 < y" using assms by simp
  have "(2::rat) powi (binade x) \<le> x" using binade_bounds[OF assms(1)] by simp
  also have "x \<le> y" by fact
  also have "y < 2 powi (binade y + 1)" using binade_bounds[OF \<open>0 < y\<close>] by simp
  finally have "binade x < binade y + 1" by (rule pow2_less_cancel)
  then show ?thesis by simp
qed

lemma fl_pos_grid: "0 < x \<Longrightarrow> fl x = grid (binade x - 52) x"
  by (simp add: fl_def grid_def Let_def)

lemma grid_mono: "y \<le> z \<Longrightarrow> grid e y \<le> grid e z"
proof -
  assume "y \<le> z"
  then have "y / 2 powi e \<le> z / 2 powi e" by (simp add: divide_right_mono)
  then have "round_half_even (y / 2 powi e) \<le> round_half_even (z / 2 powi e)" by (rule rhe_mono)
  then have "(of_int (round_half_even (y / 2 powi e)) :: rat) \<le> of_int (round_half_even (z / 2 powi e))"
    by simp
  then show ?thesis unfolding grid_def by (intro mult_right_mono) simp_all
qed

lemma grid_exact: "grid e (of_int n * 2 powi e) = of_int n * 2 powi e"
  by (simp add: grid_def rhe_of_int)

lemma grid_err: "\<bar>grid e y - y\<bar> \<le> 2 powi e / 2"
proof -
  have p: "(0::rat) < 2 powi e" by simp
  have "grid e y - y = (of_int (round_half_even (y / 2 powi e)) - y / 2 powi e) * 2 powi e"
    using p by (simp add: grid_def algebra_simps)
  then have "\<bar>grid e y - y\<bar> = \<bar>of_int (round_half_even (y / 2 powi e)) - y / 2 powi e\<bar> * 2 powi e"
    using p by (simp add: abs_mult)
  also have "\<dots> \<le> (1 / 2) * 2 powi e"
    using rhe_err[of "y / 2 powi e"] p by (intro mult_right_mono) simp_all
  finally show ?thesis by simp
qed

lemma fl_err:
  assumes "0 < x"
  shows "\<bar>fl x - x\<bar> \<le> x / 2 ^ 53"
proof -
  define e where "e = binade x - 52"
  have eq: "e + 52 = binade x" by (simp add: e_def)
  have "(2::rat) powi (binade x) \<le> x" using binade_bounds[OF assms] by blast
  then have "(2::rat) powi (e + 52) \<le> x" unfolding eq .
  moreover have "(2::rat) powi (e + 52) = 2 powi e * 2 ^ 52"
    by (simp add: power_int_add)
  ultimately have "(2::rat) powi e * 2 ^ 52 \<le> x" by simp
  then have "(2::rat) powi e / 2 \<le> x / 2 ^ 53" by (simp add: field_simps)
  moreover have "\<bar>fl x - x\<bar> \<le> 2 powi e / 2"
    using grid_err[of e x] fl_pos_grid[OF assms] by (simp add: e_def)
  ultimately show ?thesis by linarith
qed

lemma fl_positive: "0 < x \<Longrightarrow> 0 < fl x"
proof -
  assume x: "0 < x"
  have "x / 2 ^ 53 < x" using x by (simp add: field_simps)
  then show ?thesis using fl_err[OF x] by linarith
qed

lemma fl_mono:
  assumes "0 < x" "x \<le> y"
  shows "fl x \<le> fl y"
proof -
  have y: "0 < y" using assms by simp
  define ex where "ex = binade x - 52"
  define ey where "ey = binade y - 52"
  have le: "ex \<le> ey" using binade_mono[OF assms] by (simp add: ex_def ey_def)
  have fx: "fl x = grid ex x" using fl_pos_grid[OF assms(1)] by (simp add: ex_def)
  have fy: "fl y = grid ey y" using fl_pos_grid[OF y] by (simp add: ey_def)
  show ?thesis
  proof (cases "ex = ey")
    case True
    then show ?thesis using fx fy grid_mono[OF assms(2)] by simp
  next
    case False
    then have lt: "ex + 1 \<le> ey" using le by simp
    define b :: rat where "b = 2 powi (ex + 53)"
    have eqx: "ex + 53 = binade x + 1" by (simp add: ex_def)
    have "x < 2 powi (binade x + 1)" using binade_bounds[OF assms(1)] by blast
    then have "x < b" unfolding b_def eqx .
    then have xb: "x \<le> b" by simp
    have "b = of_int (2 ^ 53) * 2 powi ex" by (simp add: b_def power_int_add)
    then have gb: "grid ex b = b" using grid_exact[of ex "2 ^ 53"] by simp
    have 1: "fl x \<le> b" using grid_mono[OF xb, of ex] gb fx by simp
    define c :: rat where "c = 2 powi (ey + 52)"
    have eqy: "ey + 52 = binade y" by (simp add: ey_def)
    have "2 powi (binade y) \<le> y" using binade_bounds[OF y] by blast
    then have cy: "c \<le> y" unfolding c_def eqy .
    have "c = of_int (2 ^ 52) * 2 powi ey" by (simp add: c_def power_int_add)
    then have gc: "grid ey c = c" using grid_exact[of ey "2 ^ 52"] by simp
    have 2: "c \<le> fl y" using grid_mono[OF cy, of ey] gc fy by simp
    have "b \<le> c" unfolding b_def c_def using lt by (intro power_int_increasing) simp_all
    then show ?thesis using 1 2 by linarith
  qed
qed

lemma fl_of_nat:
  assumes "n < 2 ^ 53"
  shows "fl (of_nat n) = of_nat n"
proof (cases "n = 0")
  case True
  then show ?thesis by (simp add: fl_def)
next
  case False
  define x :: rat where "x = of_nat n"
  have x: "0 < x" using False by (simp add: x_def)
  define e where "e = binade x - 52"
  have "x < 2 ^ 53" using assms unfolding x_def
    by (metis of_nat_less_iff of_nat_numeral of_nat_power)
  then have "x < 2 powi 53" by simp
  moreover have "(2::rat) powi (binade x) \<le> x" using binade_bounds[OF x] by simp
  ultimately have "(2::rat) powi (binade x) < 2 powi 53" by linarith
  then have "binade x < 53" by (rule pow2_less_cancel)
  then have e: "e \<le> 0" by (simp add: e_def)
  have "(2::rat) ^ nat (- e) * 2 powi e = 2 powi (- e) * 2 powi e"
    using e by (simp add: power_int_nonneg_exp)
  also have "\<dots> = 1" by (simp add: power_int_minus)
  finally have one: "(2::rat) ^ nat (- e) * 2 powi e = 1" .
  have "x = of_int (int n * 2 ^ nat (- e)) * 2 powi e"
    using one by (simp add: x_def mult.assoc)
  then have "grid e x = x" using grid_exact[of e "int n * 2 ^ nat (- e)"] by simp
  then show ?thesis using fl_pos_grid[OF x] by (simp add: e_def x_def)
qed

lemma fl_bounds:
  assumes "0 < x"
  shows "(1 - roundoff) * x \<le> fl x" "fl x \<le> (1 + roundoff) * x"
proof -
  have e: "\<bar>fl x - x\<bar> \<le> x / 2 ^ 53" using fl_err[OF assms] .
  have l: "(1 - roundoff) * x = x - x / 2 ^ 53" by (simp add: algebra_simps)
  have h: "(1 + roundoff) * x = x + x / 2 ^ 53" by (simp add: algebra_simps)
  show "(1 - roundoff) * x \<le> fl x" unfolding l using e by linarith
  show "fl x \<le> (1 + roundoff) * x" unfolding h using e by linarith
qed

lemma fl_bounds0:
  assumes "0 \<le> x"
  shows "(1 - roundoff) * x \<le> fl x" "fl x \<le> (1 + roundoff) * x"
proof -
  show "(1 - roundoff) * x \<le> fl x"
  proof (cases "x = 0")
    case True then show ?thesis by (simp add: fl_def)
  next
    case False then show ?thesis using fl_bounds(1)[of x] assms by simp
  qed
  show "fl x \<le> (1 + roundoff) * x"
  proof (cases "x = 0")
    case True then show ?thesis by (simp add: fl_def)
  next
    case False then show ?thesis using fl_bounds(2)[of x] assms by simp
  qed
qed

lemma fl_mono0: "0 \<le> x \<Longrightarrow> x \<le> y \<Longrightarrow> fl x \<le> fl y"
proof -
  assume a: "0 \<le> x" "x \<le> y"
  show ?thesis
  proof (cases "x = 0")
    case True
    then have "0 \<le> y" using a by simp
    then have "0 \<le> (1 - roundoff) * y" by (intro mult_nonneg_nonneg) simp_all
    then have "0 \<le> fl y" using fl_bounds0(1)[OF \<open>0 \<le> y\<close>] by linarith
    then show ?thesis using True by (simp add: fl_def)
  next
    case False
    then show ?thesis using fl_mono[of x y] a by simp
  qed
qed

subsection \<open>Two roundings stay within a quarter of a pixel\<close>

lemma div_envelope:
  assumes r: "0 < r" and w: "0 \<le> w" and a: "(1 - roundoff) * r \<le> a" "a \<le> (1 + roundoff) * r"
  shows "(1 - roundoff) * (1 - roundoff) * (w / r) \<le> fl (w / a)"
    and "fl (w / a) \<le> (1 + roundoff) / (1 - roundoff) * (w / r)"
proof -
  have lr: "0 < (1 - roundoff) * r" using r by (intro mult_pos_pos) simp_all
  have hr: "0 < (1 + roundoff) * r" using r by (intro mult_pos_pos) simp_all
  have apos: "0 < a" using lr a(1) by linarith
  have q0: "0 \<le> w / a" using w apos by simp
  have up: "w / a \<le> w / ((1 - roundoff) * r)"
    using a(1) w lr apos by (intro divide_left_mono) (simp_all add: mult_pos_pos)
  have dn: "w / ((1 + roundoff) * r) \<le> w / a"
    using a(2) w hr apos by (intro divide_left_mono) (simp_all add: mult_pos_pos)
  have "fl (w / a) \<le> (1 + roundoff) * (w / a)" using fl_bounds0(2)[OF q0] .
  also have "\<dots> \<le> (1 + roundoff) * (w / ((1 - roundoff) * r))"
    by (rule mult_left_mono[OF up]) simp
  also have "\<dots> = (1 + roundoff) / (1 - roundoff) * (w / r)" by simp
  finally show "fl (w / a) \<le> (1 + roundoff) / (1 - roundoff) * (w / r)" .
  have wr0: "0 \<le> w / r" using w r by simp
  have c: "(1 - roundoff) * (1 - roundoff) \<le> (1 - roundoff) / (1 + roundoff)" by simp
  have "(1 - roundoff) * (1 - roundoff) * (w / r) \<le> (1 - roundoff) / (1 + roundoff) * (w / r)"
    by (rule mult_right_mono[OF c wr0])
  also have "\<dots> = (1 - roundoff) * (w / ((1 + roundoff) * r))" by simp
  also have "\<dots> \<le> (1 - roundoff) * (w / a)"
    by (rule mult_left_mono[OF dn]) simp
  also have "\<dots> \<le> fl (w / a)" using fl_bounds0(1)[OF q0] .
  finally show "(1 - roundoff) * (1 - roundoff) * (w / r) \<le> fl (w / a)" .
qed

lemma mul_envelope:
  assumes r: "0 < r" and h: "0 \<le> h" and a: "(1 - roundoff) * r \<le> a" "a \<le> (1 + roundoff) * r"
  shows "(1 - roundoff) * (1 - roundoff) * (h * r) \<le> fl (h * a)"
    and "fl (h * a) \<le> (1 + roundoff) / (1 - roundoff) * (h * r)"
proof -
  have lr: "0 < (1 - roundoff) * r" using r by (intro mult_pos_pos) simp_all
  have apos: "0 < a" using lr a(1) by linarith
  have hr0: "0 \<le> h * r" using h r by simp
  have p0: "0 \<le> h * a" using h apos by simp
  have up: "h * a \<le> h * ((1 + roundoff) * r)" using a(2) h by (intro mult_left_mono) simp_all
  have dn: "h * ((1 - roundoff) * r) \<le> h * a" using a(1) h by (intro mult_left_mono) simp_all
  have c1: "(1 + roundoff) * (1 + roundoff) \<le> (1 + roundoff) / (1 - roundoff)" by simp
  have "fl (h * a) \<le> (1 + roundoff) * (h * a)" using fl_bounds0(2)[OF p0] .
  also have "\<dots> \<le> (1 + roundoff) * (h * ((1 + roundoff) * r))"
    by (rule mult_left_mono[OF up]) simp
  also have "\<dots> = ((1 + roundoff) * (1 + roundoff)) * (h * r)" by (simp only: mult_ac)
  also have "\<dots> \<le> (1 + roundoff) / (1 - roundoff) * (h * r)"
    by (rule mult_right_mono[OF c1 hr0])
  finally show "fl (h * a) \<le> (1 + roundoff) / (1 - roundoff) * (h * r)" .
  have "(1 - roundoff) * (1 - roundoff) * (h * r) = (1 - roundoff) * (h * ((1 - roundoff) * r))" by (simp only: mult_ac)
  also have "\<dots> \<le> (1 - roundoff) * (h * a)"
    by (rule mult_left_mono[OF dn]) simp
  also have "\<dots> \<le> fl (h * a)" using fl_bounds0(1)[OF p0] .
  finally show "(1 - roundoff) * (1 - roundoff) * (h * r) \<le> fl (h * a)" .
qed

lemma near_exact:
  assumes "0 \<le> x" "x \<le> 2 ^ 32"
    and "(1 - roundoff) * (1 - roundoff) * x \<le> z" "z \<le> (1 + roundoff) / (1 - roundoff) * x"
  shows "\<bar>z - x\<bar> \<le> 1 / 4"
proof -
  have l: "81129638414606663681390495662081 * x \<le> z * 81129638414606681695789005144064"
    using assms(3) by simp
  have h: "z * 9007199254740991 \<le> 9007199254740993 * x"
    using assms(4) by simp
  have b: "x \<le> 4294967296" using assms(2) by simp
  have "z - x \<le> 1 / 4" using assms(1) b h by linarith
  moreover have "x - z \<le> 1 / 4" using assms(1) b l by linarith
  ultimately show ?thesis by linarith
qed

lemma Math_round_err: "\<bar>of_int (Math_round z) - z\<bar> \<le> 1 / 2"
  unfolding Math_round_def by linarith

lemma Math_round_near_int: "\<bar>z - of_int n\<bar> \<le> 1 / 4 \<Longrightarrow> Math_round z = n"
  unfolding Math_round_def by (intro floor_unique) linarith+

lemma Math_round_of_int: "Math_round (of_int n) = n"
  by (rule Math_round_near_int) simp

lemma Math_round_of_nat: "Math_round (of_nat n) = int n"
  using Math_round_of_int[of "int n"] by simp

lemma Math_round_mono: "x \<le> y \<Longrightarrow> Math_round x \<le> Math_round y"
  unfolding Math_round_def by (intro floor_mono) simp

lemma Math_round_le_nat: "x \<le> of_nat n \<Longrightarrow> Math_round x \<le> int n"
  using Math_round_mono[of x "of_nat n"] Math_round_of_nat[of n] by simp

lemma mul_result:
  assumes r: "0 < r" and a: "(1 - roundoff) * r \<le> a" "a \<le> (1 + roundoff) * r"
    and h: "0 \<le> h" and x: "h * r \<le> 2 ^ 32"
  shows "\<bar>fl (h * a) - h * r\<bar> \<le> 1 / 4"
proof -
  have "0 \<le> h * r" using h r by simp
  then show ?thesis
    using near_exact[OF _ x mul_envelope[OF r h a]] by simp
qed

lemma div_result:
  assumes r: "0 < r" and a: "(1 - roundoff) * r \<le> a" "a \<le> (1 + roundoff) * r"
    and w: "0 \<le> w" and x: "w / r \<le> 2 ^ 32"
  shows "\<bar>fl (w / a) - w / r\<bar> \<le> 1 / 4"
proof -
  have "0 \<le> w / r" using w r by simp
  then show ?thesis
    using near_exact[OF _ x div_envelope[OF r w a]] by simp
qed

lemma round_near:
  assumes "\<bar>z - x\<bar> \<le> 1 / 4"
  shows "\<bar>of_int (Math_round z) - x\<bar> \<le> 1"
  using assms Math_round_err[of z] by linarith

lemma aspect_facts:
  assumes "0 < W" "0 < H"
  defines "r \<equiv> (of_nat W / of_nat H :: rat)"
  shows "0 < r" "(1 - roundoff) * r \<le> fl r" "fl r \<le> (1 + roundoff) * r" "0 < fl r"
proof -
  show r: "0 < r" using assms by (simp add: r_def)
  show "(1 - roundoff) * r \<le> fl r" using fl_bounds(1)[OF r] .
  show "fl r \<le> (1 + roundoff) * r" using fl_bounds(2)[OF r] .
  show "0 < fl r" using fl_positive[OF r] .
qed

lemma calculateTargetSize_unfold:
  assumes "oh \<noteq> 0" "fl (ow / oh) \<noteq> 0"
  shows "calculateTargetSize ow oh mw mh =
     Some (if fl (ow / oh) > 1
           then (if fl (min mw ow / fl (ow / oh)) > mh
                 then \<lparr>width = Math_round (fl (mh * fl (ow / oh))), height = Math_round mh\<rparr>
                 else \<lparr>width = Math_round (min mw ow),
                       height = Math_round (fl (min mw ow / fl (ow / oh)))\<rparr>)
           else (if fl (min mh oh * fl (ow / oh)) > mw
                 then \<lparr>width = Math_round mw, height = Math_round (fl (mw / fl (ow / oh)))\<rparr>
                 else \<lparr>width = Math_round (fl (min mh oh * fl (ow / oh))),
                       height = Math_round (min mh oh)\<rparr>))"
  using assms by (simp add: calculateTargetSize_def number_div_def number_mul_def Let_def)

subsection \<open>The four branches\<close>

lemma div_gt_imp:
  assumes a: "0 < a" and w: "0 \<le> w" and n: "n < 2 ^ 53" and gt: "fl (w / a) > of_nat n"
  shows "of_nat n * a < w"
proof (rule ccontr)
  assume "\<not> of_nat n * a < w"
  then have "w \<le> of_nat n * a" by simp
  then have "w / a \<le> of_nat n" using a by (simp add: pos_divide_le_eq)
  moreover have "0 \<le> w / a" using a w by simp
  ultimately have "fl (w / a) \<le> fl (of_nat n)" by (intro fl_mono0)
  then show False using gt fl_of_nat[OF n] by simp
qed

lemma mul_gt_imp:
  assumes a: "0 < a" and h: "0 \<le> h" and n: "n < 2 ^ 53" and gt: "fl (h * a) > of_nat n"
  shows "of_nat n / a < h"
proof (rule ccontr)
  assume "\<not> of_nat n / a < h"
  then have "h \<le> of_nat n / a" by simp
  then have "h * a \<le> of_nat n" using a by (simp add: pos_le_divide_eq)
  moreover have "0 \<le> h * a" using a h by simp
  ultimately have "fl (h * a) \<le> fl (of_nat n)" by (intro fl_mono0)
  then show False using gt fl_of_nat[OF n] by simp
qed

lemma pow31_53: "(n::nat) < 2 ^ 31 \<Longrightarrow> n < 2 ^ 53"
proof -
  assume "n < 2 ^ 31"
  moreover have "(2::nat) ^ 31 \<le> 2 ^ 53" by simp
  ultimately show ?thesis by linarith
qed

lemma of_nat_bound31: "(n::nat) < 2 ^ 31 \<Longrightarrow> (of_nat n :: rat) \<le> 2147483648"
proof -
  assume "n < 2 ^ 31"
  then have "(of_nat n :: rat) < of_nat (2 ^ 31)" by (simp only: of_nat_less_iff)
  then show ?thesis by simp
qed

text \<open>Landscape, the height does not fit: \<open>height = maxHeight\<close>, \<open>width = height * aspectRatio\<close>.\<close>

lemma landscape_refit:
  assumes r: "0 < r" and a: "(1 - roundoff) * r \<le> a" "a \<le> (1 + roundoff) * r"
    and k: "k < 2 ^ 31" and mh: "mh < 2 ^ 31"
    and gt: "fl (of_nat k / a) > of_nat mh"
  shows "Math_round (fl (of_nat mh * a)) \<le> int k"
    and "\<bar>of_int (Math_round (fl (of_nat mh * a))) - of_nat mh * r\<bar> \<le> 1"
proof -
  have lr: "0 < (1 - roundoff) * r" using r by (intro mult_pos_pos) simp_all
  have apos: "0 < a" using lr a(1) by linarith
  have lt: "of_nat mh * a < of_nat k"
    using div_gt_imp[OF apos _ pow31_53[OF mh] gt] by simp
  have "0 \<le> of_nat mh * a" using apos by simp
  then have "fl (of_nat mh * a) \<le> fl (of_nat k)" using lt by (intro fl_mono0) simp_all
  then have "fl (of_nat mh * a) \<le> of_nat k" using fl_of_nat[OF pow31_53[OF k]] by simp
  then show "Math_round (fl (of_nat mh * a)) \<le> int k" by (rule Math_round_le_nat)
  have "of_nat mh * ((1 - roundoff) * r) \<le> of_nat mh * a"
    by (rule mult_left_mono[OF a(1)]) simp
  then have "(1 - roundoff) * (of_nat mh * r) \<le> of_nat mh * a" by (simp only: mult_ac)
  then have "(1 - roundoff) * (of_nat mh * r) \<le> 2147483648" using lt of_nat_bound31[OF k] by linarith
  then have "of_nat mh * r \<le> 2 ^ 32" by simp
  then have "\<bar>fl (of_nat mh * a) - of_nat mh * r\<bar> \<le> 1 / 4"
    by (intro mul_result[OF r a]) simp_all
  then show "\<bar>of_int (Math_round (fl (of_nat mh * a))) - of_nat mh * r\<bar> \<le> 1"
    by (rule round_near)
qed

text \<open>Landscape, the height fits.\<close>

lemma landscape_fit:
  assumes r: "0 < r" and a: "(1 - roundoff) * r \<le> a" "a \<le> (1 + roundoff) * r" and a1: "1 < a"
    and k: "k < 2 ^ 31"
    and le: "\<not> fl (of_nat k / a) > of_nat mh"
  shows "Math_round (fl (of_nat k / a)) \<le> int mh"
    and "\<bar>of_int (Math_round (fl (of_nat k / a))) - of_nat k / r\<bar> \<le> 1"
proof -
  have "fl (of_nat k / a) \<le> of_nat mh" using le by simp
  then show "Math_round (fl (of_nat k / a)) \<le> int mh" by (rule Math_round_le_nat)
  have "1 < (1 + roundoff) * r" using a1 a(2) by linarith
  then have half: "1 / 2 \<le> r" by simp
  have "of_nat k / r \<le> of_nat k / (1 / 2)"
    using half r by (intro divide_left_mono) simp_all
  then have "of_nat k / r \<le> 2 * of_nat k" by simp
  then have "of_nat k / r \<le> 4294967296" using of_nat_bound31[OF k] by linarith
  then have "of_nat k / r \<le> 2 ^ 32" by simp
  then have "\<bar>fl (of_nat k / a) - of_nat k / r\<bar> \<le> 1 / 4"
    by (intro div_result[OF r a]) simp_all
  then show "\<bar>of_int (Math_round (fl (of_nat k / a))) - of_nat k / r\<bar> \<le> 1"
    by (rule round_near)
qed

text \<open>Portrait, the width does not fit: \<open>width = maxWidth\<close>, \<open>height = width / aspectRatio\<close>.\<close>

lemma portrait_refit:
  assumes r: "0 < r" and a: "(1 - roundoff) * r \<le> a" "a \<le> (1 + roundoff) * r"
    and k: "k < 2 ^ 31" and mw: "mw < 2 ^ 31"
    and gt: "fl (of_nat k * a) > of_nat mw"
  shows "Math_round (fl (of_nat mw / a)) \<le> int k"
    and "\<bar>of_int (Math_round (fl (of_nat mw / a))) - of_nat mw / r\<bar> \<le> 1"
proof -
  have lr: "0 < (1 - roundoff) * r" using r by (intro mult_pos_pos) simp_all
  have hr: "0 < (1 + roundoff) * r" using r by (intro mult_pos_pos) simp_all
  have apos: "0 < a" using lr a(1) by linarith
  have lt: "of_nat mw / a < of_nat k"
    using mul_gt_imp[OF apos _ pow31_53[OF mw] gt] by simp
  have "0 \<le> of_nat mw / a" using apos by simp
  then have "fl (of_nat mw / a) \<le> fl (of_nat k)" using lt by (intro fl_mono0) simp_all
  then have "fl (of_nat mw / a) \<le> of_nat k" using fl_of_nat[OF pow31_53[OF k]] by simp
  then show "Math_round (fl (of_nat mw / a)) \<le> int k" by (rule Math_round_le_nat)
  have "of_nat mw / ((1 + roundoff) * r) \<le> of_nat mw / a"
    using a(2) apos hr by (intro divide_left_mono) (simp_all add: mult_pos_pos)
  moreover have "of_nat mw / ((1 + roundoff) * r) = (of_nat mw / r) / (1 + roundoff)" by simp
  ultimately have "(of_nat mw / r) / (1 + roundoff) \<le> 2147483648"
    using lt of_nat_bound31[OF k] by linarith
  then have "of_nat mw / r \<le> 2 ^ 32" by simp
  then have "\<bar>fl (of_nat mw / a) - of_nat mw / r\<bar> \<le> 1 / 4"
    by (intro div_result[OF r a]) simp_all
  then show "\<bar>of_int (Math_round (fl (of_nat mw / a))) - of_nat mw / r\<bar> \<le> 1"
    by (rule round_near)
qed

text \<open>Portrait, the width fits.\<close>

lemma portrait_fit:
  assumes r: "0 < r" and a: "(1 - roundoff) * r \<le> a" "a \<le> (1 + roundoff) * r" and a1: "\<not> 1 < a"
    and k: "k < 2 ^ 31"
    and le: "\<not> fl (of_nat k * a) > of_nat mw"
  shows "Math_round (fl (of_nat k * a)) \<le> int mw"
    and "\<bar>of_int (Math_round (fl (of_nat k * a))) - of_nat k * r\<bar> \<le> 1"
proof -
  have "fl (of_nat k * a) \<le> of_nat mw" using le by simp
  then show "Math_round (fl (of_nat k * a)) \<le> int mw" by (rule Math_round_le_nat)
  have "(1 - roundoff) * r \<le> 1" using a1 a(1) by linarith
  then have two: "r \<le> 2" by simp
  have "of_nat k * r \<le> of_nat k * 2"
    by (rule mult_left_mono[OF two]) simp
  then have "of_nat k * r \<le> 4294967296" using of_nat_bound31[OF k] by linarith
  then have "of_nat k * r \<le> 2 ^ 32" by simp
  then have "\<bar>fl (of_nat k * a) - of_nat k * r\<bar> \<le> 1 / 4"
    by (intro mul_result[OF r a]) simp_all
  then show "\<bar>of_int (Math_round (fl (of_nat k * a))) - of_nat k * r\<bar> \<le> 1"
    by (rule round_near)
qed

subsection \<open>The target size\<close>

lemma round_to_nat:
  assumes "\<bar>z - of_nat n\<bar> \<le> 1 / 4"
  shows "Math_round z = int n"
  using Math_round_near_int[of z "int n"] assms by simp

lemma eval_4000_3000: "calculateTargetSize 4000 3000 512 384 = Some \<lparr>width = 512, height = 384\<rparr>"
  by code_simp

lemma eval_300_200: "calculateTargetSize 300 200 512 384 = Some \<lparr>width = 300, height = 200\<rparr>"
  by code_simp

text \<open>
  Claim C6. For an image of positive integer width and height (integers that a number
  holds exactly) and positive integer preset bounds (below \<open>2 ^ 31\<close>), the function
  returns a size; its width and height, after rounding, are at most the preset's bounds;
  and the aspect ratio is kept within one pixel: the width is within one pixel of the
  height times the original ratio, or the height is within one pixel of the width divided
  by the original ratio.
\<close>

theorem target_size_within_preset:
  assumes "0 < W" "0 < H" "W < 2 ^ 53" "H < 2 ^ 53"
    and "0 < maxW" "0 < maxH" "maxW < 2 ^ 31" "maxH < 2 ^ 31"
  shows "\<exists>t. calculateTargetSize (of_nat W) (of_nat H) (of_nat maxW) (of_nat maxH) = Some t
           \<and> width t \<le> int maxW \<and> height t \<le> int maxH
           \<and> (\<bar>of_int (width t) - of_int (height t) * (of_nat W / of_nat H)\<bar> \<le> (1::rat)
                \<or> \<bar>of_int (height t) - of_int (width t) * (of_nat H / of_nat W)\<bar> \<le> (1::rat))"
proof -
  define r :: rat where "r = of_nat W / of_nat H"
  define a where "a = fl r"
  have r: "0 < r" and a: "(1 - roundoff) * r \<le> a" "a \<le> (1 + roundoff) * r" and apos: "0 < a"
    using aspect_facts[OF assms(1,2)] by (simp_all add: r_def a_def)
  define k where "k = min maxW W"
  define k' where "k' = min maxH H"
  have k: "k < 2 ^ 31" "k \<le> maxW" using assms(7) by (simp_all add: k_def)
  have k': "k' < 2 ^ 31" "k' \<le> maxH" using assms(8) by (simp_all add: k'_def)
  have mink: "min (of_nat maxW) (of_nat W) = (of_nat k :: rat)" by (simp add: k_def)
  have mink': "min (of_nat maxH) (of_nat H) = (of_nat k' :: rat)" by (simp add: k'_def)
  have inv: "of_nat n / r = of_nat n * (of_nat H / of_nat W)" for n :: nat
    using assms(1,2) by (simp add: r_def)
  have H0: "(of_nat H :: rat) \<noteq> 0" using assms(2) by simp
  have a0: "fl (of_nat W / of_nat H) \<noteq> 0" using apos by (simp add: a_def r_def)
  note unfold = calculateTargetSize_unfold[OF H0 a0, of "of_nat maxW" "of_nat maxH",
      folded r_def, folded a_def, unfolded mink mink']
  show ?thesis
  proof (cases "1 < a")
    case True
    show ?thesis
    proof (cases "fl (of_nat k / a) > of_nat maxH")
      case over: True
      have "Math_round (fl (of_nat maxH * a)) \<le> int maxW"
        using landscape_refit(1)[OF r a k(1) assms(8) over] k(2) by linarith
      moreover have "\<bar>of_int (Math_round (fl (of_nat maxH * a))) - of_int (int maxH) * r\<bar> \<le> 1"
        using landscape_refit(2)[OF r a k(1) assms(8) over] by simp
      ultimately show ?thesis
        using unfold True over by (simp add: Math_round_of_nat r_def)
    next
      case fit: False
      have "Math_round (fl (of_nat k / a)) \<le> int maxH"
        using landscape_fit(1)[OF r a True k(1) fit] .
      moreover have "\<bar>of_int (Math_round (fl (of_nat k / a))) - of_int (int k) * (of_nat H / of_nat W)\<bar> \<le> (1::rat)"
        using landscape_fit(2)[OF r a True k(1) fit] inv[of k] by simp
      ultimately show ?thesis
        using unfold True fit k(2) by (simp add: Math_round_of_nat)
    qed
  next
    case False
    show ?thesis
    proof (cases "fl (of_nat k' * a) > of_nat maxW")
      case over: True
      have "Math_round (fl (of_nat maxW / a)) \<le> int maxH"
        using portrait_refit(1)[OF r a k'(1) assms(7) over] k'(2) by linarith
      moreover have "\<bar>of_int (Math_round (fl (of_nat maxW / a))) - of_int (int maxW) * (of_nat H / of_nat W)\<bar> \<le> (1::rat)"
        using portrait_refit(2)[OF r a k'(1) assms(7) over] inv[of maxW] by simp
      ultimately show ?thesis
        using unfold False over by (simp add: Math_round_of_nat)
    next
      case fit: False
      have "Math_round (fl (of_nat k' * a)) \<le> int maxW"
        using portrait_fit(1)[OF r a False k'(1) fit] .
      moreover have "\<bar>of_int (Math_round (fl (of_nat k' * a))) - of_int (int k') * r\<bar> \<le> 1"
        using portrait_fit(2)[OF r a False k'(1) fit] by simp
      ultimately show ?thesis
        using unfold False fit k'(2) by (simp add: Math_round_of_nat r_def)
    qed
  qed
qed

theorem target_size_within_preset_witness:
  "(0::nat) < 4000 \<and> (0::nat) < 3000 \<and> (4000::nat) < 2 ^ 53 \<and> (3000::nat) < 2 ^ 53
   \<and> (0::nat) < 512 \<and> (0::nat) < 384 \<and> (512::nat) < 2 ^ 31 \<and> (384::nat) < 2 ^ 31
   \<and> calculateTargetSize 4000 3000 512 384 = Some \<lparr>width = 512, height = 384\<rparr>
   \<and> (\<exists>t. calculateTargetSize (of_nat 4000) (of_nat 3000) (of_nat 512) (of_nat 384) = Some t
           \<and> width t \<le> int 512 \<and> height t \<le> int 384
           \<and> (\<bar>of_int (width t) - of_int (height t) * (of_nat 4000 / of_nat 3000)\<bar> \<le> (1::rat)
                \<or> \<bar>of_int (height t) - of_int (width t) * (of_nat 3000 / of_nat 4000)\<bar> \<le> (1::rat)))"
proof -
  have h: "(0::nat) < 4000" "(0::nat) < 3000" "(4000::nat) < 2 ^ 53" "(3000::nat) < 2 ^ 53"
    "(0::nat) < 512" "(0::nat) < 384" "(512::nat) < 2 ^ 31" "(384::nat) < 2 ^ 31"
    by simp_all
  show ?thesis
    using h eval_4000_3000 target_size_within_preset[OF h] by blast
qed

text \<open>
  Claim C7. For an image whose width and height are already within the preset's bounds,
  the target width and height do not exceed the original ones; they are the original
  ones.
\<close>

theorem no_upscaling:
  assumes "0 < W" "0 < H" "W \<le> maxW" "H \<le> maxH" "maxW < 2 ^ 31" "maxH < 2 ^ 31"
  shows "\<exists>t. calculateTargetSize (of_nat W) (of_nat H) (of_nat maxW) (of_nat maxH) = Some t
           \<and> width t \<le> int W \<and> height t \<le> int H
           \<and> t = \<lparr>width = int W, height = int H\<rparr>"
proof -
  define r :: rat where "r = of_nat W / of_nat H"
  define a where "a = fl r"
  have r: "0 < r" and a: "(1 - roundoff) * r \<le> a" "a \<le> (1 + roundoff) * r" and apos: "0 < a"
    using aspect_facts[OF assms(1,2)] by (simp_all add: r_def a_def)
  have W31: "W < 2 ^ 31" and H31: "H < 2 ^ 31" using assms by simp_all
  have mink: "min (of_nat maxW) (of_nat W) = (of_nat W :: rat)" using assms(3) by simp
  have mink': "min (of_nat maxH) (of_nat H) = (of_nat H :: rat)" using assms(4) by simp
  have H0: "(of_nat H :: rat) \<noteq> 0" using assms(2) by simp
  have a0: "fl (of_nat W / of_nat H) \<noteq> 0" using apos by (simp add: a_def r_def)
  note unfold = calculateTargetSize_unfold[OF H0 a0, of "of_nat maxW" "of_nat maxH",
      folded r_def, folded a_def, unfolded mink mink']
  have Wr: "of_nat W / r = (of_nat H :: rat)" using assms(1,2) by (simp add: r_def)
  have Hr: "of_nat H * r = (of_nat W :: rat)" using assms(1,2) by (simp add: r_def)
  have "of_nat W / r \<le> (2147483648 :: rat)" unfolding Wr by (rule of_nat_bound31[OF H31])
  then have "of_nat W / r \<le> 2 ^ 32" by simp
  then have dv: "\<bar>fl (of_nat W / a) - of_nat H\<bar> \<le> 1 / 4"
    using div_result[OF r a, of "of_nat W"] by (simp add: Wr)
  have "of_nat H * r \<le> (2147483648 :: rat)" unfolding Hr by (rule of_nat_bound31[OF W31])
  then have "of_nat H * r \<le> 2 ^ 32" by simp
  then have ml: "\<bar>fl (of_nat H * a) - of_nat W\<bar> \<le> 1 / 4"
    using mul_result[OF r a, of "of_nat H"] by (simp add: Hr)
  have rh: "Math_round (fl (of_nat W / a)) = int H" using dv by (rule round_to_nat)
  have rw: "Math_round (fl (of_nat H * a)) = int W" using ml by (rule round_to_nat)
  have res: "calculateTargetSize (of_nat W) (of_nat H) (of_nat maxW) (of_nat maxH)
      = Some \<lparr>width = int W, height = int H\<rparr>"
  proof (cases "1 < a")
    case True
    show ?thesis
    proof (cases "fl (of_nat W / a) > of_nat maxH")
      case over: True
      have "(of_nat maxH :: rat) < of_nat H + 1 / 4" using over dv by linarith
      then have "(of_nat maxH :: rat) < of_nat (H + 1)" by simp
      then have "maxH < H + 1" by (simp only: of_nat_less_iff)
      then have "maxH = H" using assms(4) by simp
      then show ?thesis using unfold True over rw by (simp add: Math_round_of_nat)
    next
      case False
      then show ?thesis using unfold True rh by (simp add: Math_round_of_nat)
    qed
  next
    case False
    show ?thesis
    proof (cases "fl (of_nat H * a) > of_nat maxW")
      case over: True
      have "(of_nat maxW :: rat) < of_nat W + 1 / 4" using over ml by linarith
      then have "(of_nat maxW :: rat) < of_nat (W + 1)" by simp
      then have "maxW < W + 1" by (simp only: of_nat_less_iff)
      then have "maxW = W" using assms(3) by simp
      then show ?thesis using unfold False over rh by (simp add: Math_round_of_nat)
    next
      case fit: False
      then show ?thesis using unfold False rw by (simp add: Math_round_of_nat)
    qed
  qed
  then show ?thesis by simp
qed

theorem no_upscaling_witness:
  "(0::nat) < 300 \<and> (0::nat) < 200 \<and> (300::nat) \<le> 512 \<and> (200::nat) \<le> 384
   \<and> (512::nat) < 2 ^ 31 \<and> (384::nat) < 2 ^ 31
   \<and> calculateTargetSize 300 200 512 384 = Some \<lparr>width = 300, height = 200\<rparr>
   \<and> (\<exists>t. calculateTargetSize (of_nat 300) (of_nat 200) (of_nat 512) (of_nat 384) = Some t
           \<and> width t \<le> int 300 \<and> height t \<le> int 200
           \<and> t = \<lparr>width = int 300, height = int 200\<rparr>)"
proof -
  have h: "(0::nat) < 300" "(0::nat) < 200" "(300::nat) \<le> 512" "(200::nat) \<le> 384"
    "(512::nat) < 2 ^ 31" "(384::nat) < 2 ^ 31"
    by simp_all
  show ?thesis
    using h eval_300_200 no_upscaling[OF h] by blast
qed

text \<open>
  Claim C10. Under the balanced preset, an image of 10000 by 1 gets the target size 512
  by 0, and an image of 1 by 10000 the target size 0 by 384: a dimension of the rounded
  target size can be 0.
\<close>

theorem extreme_ratio_gives_zero_height:
  "calculateTargetSize 10000 1 (maxWidth (PROCESSING_CONFIGS BALANCED))
      (maxHeight (PROCESSING_CONFIGS BALANCED))
     = Some \<lparr>width = 512, height = 0\<rparr>
   \<and> calculateTargetSize 1 10000 (maxWidth (PROCESSING_CONFIGS BALANCED))
      (maxHeight (PROCESSING_CONFIGS BALANCED))
     = Some \<lparr>width = 0, height = 384\<rparr>"
  by code_simp

end
